theory Spec2Isabelle
  imports Main
begin

section \<open>Line text and the combining-mark set\<close>

text \<open>
  A JavaScript string is a sequence of UTF-16 code units; \<open>line.length\<close> counts them and
  \<open>line.charCodeAt(i)\<close> reads one. A line is therefore a list of code units, each given by
  its number. Offsets, columns and counts are JavaScript numbers that the program only
  increments, decrements and compares: they are integers here.
\<close>

type_synonym code_unit = nat
type_synonym line_text = "code_unit list"

text \<open>
  \<open>charCodeAt\<close> yields NaN for an index outside the string: \<open>None\<close> here.
\<close>

definition charCodeAt :: "line_text \<Rightarrow> int \<Rightarrow> code_unit option" where
  "charCodeAt line i = (if 0 \<le> i \<and> i < int (length line) then Some (line ! nat i) else None)"

text \<open>
  The fifteen Thai tone marks, ascenders, descenders and the special vowel, in the order
  of the source: U+0E48..U+0E4B, then U+0E34, U+0E35, U+0E37, U+0E31, U+0E4D, U+0E4C,
  U+0E47, U+0E36, then U+0E38, U+0E39, then U+0E33.
\<close>

definition THAI_NON_BASE_CODES :: "code_unit list" where
  "THAI_NON_BASE_CODES =
     [0x0E48, 0x0E49, 0x0E4A, 0x0E4B,
      0x0E34, 0x0E35, 0x0E37, 0x0E31, 0x0E4D, 0x0E4C, 0x0E47, 0x0E36,
      0x0E38, 0x0E39,
      0x0E33]"

text \<open>
  \<open>THAI_NON_BASE_CODES.includes(line.charCodeAt(i))\<close>: NaN is not an element of the array,
  so an out-of-range read is never a combining mark.
\<close>

definition isNonBase :: "line_text \<Rightarrow> int \<Rightarrow> bool" where
  "isNonBase line i =
     (case charCodeAt line i of None \<Rightarrow> False | Some c \<Rightarrow> c \<in> set THAI_NON_BASE_CODES)"

section \<open>Tab size and leading indentation\<close>

text \<open>
  \<open>editor.options.tabSize\<close> has type \<open>number | string | undefined\<close>.
\<close>

datatype TabSize = TabNumber int | TabString string | TabUndefined

fun actualTabSize :: "TabSize \<Rightarrow> int" where
  "actualTabSize (TabNumber n) = n"
| "actualTabSize (TabString _) = 0"
| "actualTabSize TabUndefined = 0"

text \<open>
  \<open>countInitialSpaces\<close> iterates the string with \<open>for ... of\<close>, that is by code point. A
  space (32) and a tab (9) are single code units and no half of a surrogate pair equals
  either, so the iteration by code unit below stops at the same place with the same count.
\<close>

fun countInitialSpacesFrom :: "line_text \<Rightarrow> int \<Rightarrow> int \<Rightarrow> int" where
  "countInitialSpacesFrom [] tabsize count = count"
| "countInitialSpacesFrom (c # cs) tabsize count =
     (if c = 32 then countInitialSpacesFrom cs tabsize (count + 1)
      else if c = 9 then countInitialSpacesFrom cs tabsize (count + tabsize)
      else count)"

definition countInitialSpaces :: "line_text \<Rightarrow> int \<Rightarrow> int" where
  "countInitialSpaces str tabsize = countInitialSpacesFrom str tabsize 0"

section \<open>The column codec\<close>

text \<open>
  The \<open>for\<close> loop of \<open>getColumnFromCharacter\<close>: \<open>i\<close> runs from \<open>wrapStart\<close> to
  \<open>character\<close> inclusive.
\<close>

function countColumns :: "line_text \<Rightarrow> int \<Rightarrow> int \<Rightarrow> int \<Rightarrow> int" where
  "countColumns line character i count =
     (if i \<le> character
      then countColumns line character (i + 1) (if \<not> isNonBase line i then count + 1 else count)
      else count)"
  by pat_completeness auto
termination
  by (relation "measure (\<lambda>(line, character, i, count). nat (character + 1 - i))") auto

declare countColumns.simps [simp del]

definition indentationFix :: "line_text \<Rightarrow> int \<Rightarrow> TabSize \<Rightarrow> int" where
  "indentationFix line wrapStart tabSize =
     (if wrapStart \<noteq> 0 then countInitialSpaces line (actualTabSize tabSize) else 0)"

definition getColumnFromCharacter :: "line_text \<Rightarrow> int \<Rightarrow> int \<Rightarrow> TabSize \<Rightarrow> int" where
  "getColumnFromCharacter line wrapStart character tabSize =
     countColumns line character wrapStart 0 + indentationFix line wrapStart tabSize"

text \<open>
  The \<open>while\<close> loop of \<open>getCharacterFromColumn\<close>, with its three variables \<open>count\<close>,
  \<open>index\<close> and \<open>lastColumnCharacter\<close>.
\<close>

function walkColumns :: "line_text \<Rightarrow> int \<Rightarrow> int \<Rightarrow> int \<Rightarrow> int \<Rightarrow> int \<Rightarrow> int" where
  "walkColumns line wrapEnd column count index lastColumnCharacter =
     (if count < column
      then (if index \<ge> wrapEnd then lastColumnCharacter
            else if \<not> isNonBase line index
            then walkColumns line wrapEnd column (count + 1) (index + 1) index
            else walkColumns line wrapEnd column count (index + 1) lastColumnCharacter)
      else lastColumnCharacter)"
  by pat_completeness auto
termination
  by (relation "measure (\<lambda>(line, wrapEnd, column, count, index, l). nat (wrapEnd - index))") auto

declare walkColumns.simps [simp del]

definition getCharacterFromColumn ::
  "line_text \<Rightarrow> int \<Rightarrow> int \<Rightarrow> int \<Rightarrow> TabSize \<Rightarrow> int" where
  "getCharacterFromColumn line wrapStart wrapEnd column tabSize =
     walkColumns line wrapEnd column (indentationFix line wrapStart tabSize) wrapStart wrapStart"

text \<open>
  \<open>getLeftColumnCharacter\<close>: the loop starts at \<open>character - 1\<close> and walks left while the
  index is positive and holds a combining mark.
\<close>

function leftWalk :: "line_text \<Rightarrow> int \<Rightarrow> int" where
  "leftWalk line index =
     (if index > 0
      then (if \<not> isNonBase line index then index else leftWalk line (index - 1))
      else index)"
  by pat_completeness auto
termination
  by (relation "measure (\<lambda>(line, index). nat index)") auto

declare leftWalk.simps [simp del]

definition getLeftColumnCharacter :: "line_text \<Rightarrow> int \<Rightarrow> int" where
  "getLeftColumnCharacter line character = leftWalk line (character - 1)"

text \<open>
  The two conversions in the words of the specification, for comparison with the loops
  above: the offsets from \<open>wrapStart\<close> through \<open>character\<close> inclusive that hold no
  combining mark, and the width of the leading run of spaces and tabs of the logical line,
  a space counting 1 and a tab counting the tab size.
\<close>

definition visibleOffsets :: "line_text \<Rightarrow> int \<Rightarrow> int \<Rightarrow> int list" where
  "visibleOffsets line wrapStart character =
     filter (\<lambda>i. \<not> isNonBase line i) [wrapStart..character]"

definition leadingIndentationWidth :: "line_text \<Rightarrow> int \<Rightarrow> int" where
  "leadingIndentationWidth line tabsize =
     sum_list (map (\<lambda>c. if c = 32 then 1 else tabsize)
                   (takeWhile (\<lambda>c. c = 32 \<or> c = 9) line))"

section \<open>The editor as the host presents it\<close>

datatype Position = Position (posLine: int) (posCharacter: int)

datatype Selection = Selection (anchor: Position) (active: Position)

definition isBefore :: "Position \<Rightarrow> Position \<Rightarrow> bool" where
  "isBefore p q =
     (posLine p < posLine q \<or> (posLine p = posLine q \<and> posCharacter p < posCharacter q))"

text \<open>
  A selection is a range: its start is the earlier of anchor and active, its end the later.
  \<open>isEqual\<close> is the range's comparison, of start and end; \<open>isEmpty\<close> holds when they agree.
\<close>

definition rangeStart :: "Selection \<Rightarrow> Position" where
  "rangeStart sel = (if isBefore (active sel) (anchor sel) then active sel else anchor sel)"

definition rangeEnd :: "Selection \<Rightarrow> Position" where
  "rangeEnd sel = (if isBefore (active sel) (anchor sel) then anchor sel else active sel)"

definition isEqual :: "Selection \<Rightarrow> Selection \<Rightarrow> bool" where
  "isEqual a b = (rangeStart a = rangeStart b \<and> rangeEnd a = rangeEnd b)"

definition isEmpty :: "Selection \<Rightarrow> bool" where
  "isEmpty sel = (rangeStart sel = rangeEnd sel)"

datatype TextEditorCursorStyle = Line | Block | Underline | LineThin | BlockOutline | UnderlineThin

text \<open>
  What the program reads and writes of a \<open>TextEditor\<close>: the primary selection
  (\<open>editor.selection\<close>), the further selections (\<open>editor.selections\<close> is the primary one
  followed by these), the two options it uses, and the lines of the document. The last
  field, \<open>hostView\<close>, is not part of the API: it stands for whatever else the host keeps
  about the editor (on which of two visual lines a cursor at a wrap point is shown, for
  one), as a number. The program never reads or writes it; only the host does.
\<close>

record TextEditor =
  selection :: Selection
  otherSelections :: "Selection list"
  optionsCursorStyle :: TextEditorCursorStyle
  optionsTabSize :: TabSize
  document :: "line_text list"
  hostView :: nat

datatype Failure = CommandRejected | IllegalLineNumber

text \<open>\<open>document.lineAt(n).text\<close> throws for a line number outside the document.\<close>

definition lineAt :: "TextEditor \<Rightarrow> int \<Rightarrow> Failure + line_text" where
  "lineAt e n =
     (if 0 \<le> n \<and> n < int (length (document e)) then Inr (document e ! nat n)
      else Inl IllegalLineNumber)"

definition lineCount :: "TextEditor \<Rightarrow> int" where
  "lineCount e = int (length (document e))"

definition isInInsertMode :: "TextEditor \<Rightarrow> bool" where
  "isInInsertMode e = (optionsCursorStyle e = Line)"

definition isSingleSelection :: "TextEditor \<Rightarrow> bool" where
  "isSingleSelection e = (length (selection e # otherSelections e) = 1 \<and> isEmpty (selection e))"

text \<open>
  The host command \<open>cursorMove\<close> with \<open>{ to, by: "wrappedLine" }\<close> is outside the
  repository. It is a parameter of the model: given the target and the editor it either
  rejects the command (\<open>None\<close>) or yields the new cursors, the primary one first, and its
  new \<open>hostView\<close>. The command is issued without \<open>select\<close>, so every cursor it leaves is
  an empty selection. How the host wraps lines is whatever this function says.
\<close>

datatype Direction = Up | Down

datatype MoveTo = ToUp | ToDown | ToLeft | ToRight | ToWrappedLineStart | ToWrappedLineEnd

fun moveToOf :: "Direction \<Rightarrow> MoveTo" where
  "moveToOf Up = ToUp"
| "moveToOf Down = ToDown"

type_synonym Host = "MoveTo \<Rightarrow> TextEditor \<Rightarrow> (Position \<times> Position list \<times> nat) option"

section \<open>The mover\<close>

text \<open>
  The three fields of \<open>WrappedLineMover\<close>. The fourth, \<open>issued\<close>, is not a field of the
  class: it logs, in order, the target of every \<open>cursorMove\<close> command the mover passes to
  \<open>executeCommand\<close>, so that which host commands an operation issues can be stated.
\<close>

record WrappedLineMover =
  desiredColumn :: int
  isMoving :: bool
  programmaticMoveCount :: int
  issued :: "MoveTo list"

definition newMover :: WrappedLineMover where
  "newMover = \<lparr>desiredColumn = 0, isMoving = False, programmaticMoveCount = 0, issued = []\<rparr>"

text \<open>
  An asynchronous method that works on an editor is a function from the mover and the
  editor to an outcome and the mover and editor it leaves. \<open>Inl\<close> is a thrown exception
  (a rejected promise). Each method runs from its first line to its return: the model is
  sequential, and an \<open>await\<close> of a host command is the command's effect. Where the source
  waits for the host's change notification after assigning a selection that differs, the
  notification is taken to arrive. The notifications that the mover's own commands and
  assignments raise are not steps of their own: they are taken to reach the listener
  before the guarded action completes, that is while the counter is positive, where
  \<open>update\<close> returns at its first line (\<open>listener_in_programmatic_move\<close> below).
\<close>

type_synonym 'a Run = "WrappedLineMover \<times> TextEditor \<Rightarrow> (Failure + 'a) \<times> WrappedLineMover \<times> TextEditor"

definition returns :: "'a \<Rightarrow> 'a Run" where
  "returns a = (\<lambda>s. (Inr a, s))"

definition reads :: "(WrappedLineMover \<times> TextEditor \<Rightarrow> 'a) \<Rightarrow> 'a Run" where
  "reads f = (\<lambda>s. (Inr (f s), s))"

definition thenRun :: "'a Run \<Rightarrow> ('a \<Rightarrow> 'b Run) \<Rightarrow> 'b Run" where
  "thenRun f g = (\<lambda>s. case f s of (Inl x, s') \<Rightarrow> (Inl x, s') | (Inr a, s') \<Rightarrow> g a s')"

definition isInProgrammaticMove :: "WrappedLineMover \<Rightarrow> bool" where
  "isInProgrammaticMove m = (programmaticMoveCount m > 0)"

text \<open>
  \<open>try { await action() } finally { ... }\<close>: the decrement runs whether the action returns
  or throws, and the outcome of the action is the outcome of the whole.
\<close>

definition runProgrammaticMove :: "unit Run \<Rightarrow> unit Run" where
  "runProgrammaticMove action =
     (\<lambda>(m, e).
        case action (m\<lparr>programmaticMoveCount := programmaticMoveCount m + 1\<rparr>, e) of
          (r, m', e') \<Rightarrow>
            (r, m'\<lparr>programmaticMoveCount := max 0 (programmaticMoveCount m' - 1)\<rparr>, e'))"

definition executeCursorMove :: "Host \<Rightarrow> MoveTo \<Rightarrow> unit Run" where
  "executeCursorMove host to =
     (\<lambda>(m, e).
        case host to e of
          None \<Rightarrow> (Inl CommandRejected, m\<lparr>issued := issued m @ [to]\<rparr>, e)
        | Some (p, ps, v) \<Rightarrow>
            (Inr (), m\<lparr>issued := issued m @ [to]\<rparr>,
             e\<lparr>selection := Selection p p, otherSelections := map (\<lambda>q. Selection q q) ps,
               hostView := v\<rparr>))"

definition doDefaultCursorMove :: "Host \<Rightarrow> MoveTo \<Rightarrow> unit Run" where
  "doDefaultCursorMove host to = runProgrammaticMove (executeCursorMove host to)"

text \<open>Assigning \<open>editor.selection\<close> makes the assigned selection the only one.\<close>

definition updateSelection :: "Selection \<Rightarrow> unit Run" where
  "updateSelection sel =
     runProgrammaticMove
       (\<lambda>(m, e).
          if isEqual (selection e) sel then (Inr (), m, e)
          else (Inr (), m, e\<lparr>selection := sel, otherSelections := []\<rparr>))"

definition activeCharacter :: "WrappedLineMover \<times> TextEditor \<Rightarrow> int" where
  "activeCharacter = (\<lambda>(m, e). posCharacter (active (selection e)))"

definition activeLine :: "WrappedLineMover \<times> TextEditor \<Rightarrow> int" where
  "activeLine = (\<lambda>(m, e). posLine (active (selection e)))"

definition lineTextAt :: "int \<Rightarrow> line_text Run" where
  "lineTextAt n = (\<lambda>(m, e). (lineAt e n, m, e))"

definition setCursorStyle :: "TextEditorCursorStyle \<Rightarrow> unit Run" where
  "setCursorStyle style = (\<lambda>(m, e). (Inr (), m, e\<lparr>optionsCursorStyle := style\<rparr>))"

definition getWrappedLineBounds :: "Host \<Rightarrow> (int \<times> int) Run" where
  "getWrappedLineBounds host =
     thenRun (setCursorStyle LineThin) (\<lambda>_.
     thenRun (reads (\<lambda>(m, e). selection e)) (\<lambda>originalSelection.
     thenRun (doDefaultCursorMove host ToWrappedLineStart) (\<lambda>_.
     thenRun (reads activeCharacter) (\<lambda>startChar.
     thenRun (doDefaultCursorMove host ToWrappedLineEnd) (\<lambda>_.
     thenRun (reads activeCharacter) (\<lambda>endChar.
     thenRun (updateSelection originalSelection) (\<lambda>_.
     thenRun (setCursorStyle Block) (\<lambda>_.
     returns (startChar, endChar)))))))))"

definition adjustCursorToColumn :: "Host \<Rightarrow> int \<Rightarrow> unit Run" where
  "adjustCursorToColumn host column =
     thenRun (getWrappedLineBounds host) (\<lambda>(wrapStart, wrapEnd).
     thenRun (reads activeLine) (\<lambda>lineNum.
     thenRun (lineTextAt lineNum) (\<lambda>line.
     thenRun (reads (\<lambda>(m, e). optionsTabSize e)) (\<lambda>tabSize.
       let charPos = getCharacterFromColumn line wrapStart wrapEnd column tabSize;
           newPos = Position lineNum charPos
       in updateSelection (Selection newPos newPos)))))"

definition atDocumentBoundary :: "Direction \<Rightarrow> int \<Rightarrow> int \<Rightarrow> line_text \<Rightarrow> int \<Rightarrow> int \<Rightarrow> bool" where
  "atDocumentBoundary direction wrapStart wrapEnd line lineNum totalLines =
     ((direction = Down \<and> wrapEnd = int (length line) \<and> lineNum \<ge> totalLines - 1) \<or>
      (direction = Up \<and> wrapStart = 0 \<and> lineNum = 0))"

definition anchorDesiredColumn :: "line_text \<Rightarrow> int \<Rightarrow> unit Run" where
  "anchorDesiredColumn line wrapStart =
     (\<lambda>(m, e).
        if \<not> isMoving m
        then (Inr (),
              m\<lparr>isMoving := True,
                desiredColumn := getColumnFromCharacter line wrapStart
                                   (posCharacter (active (selection e))) (optionsTabSize e)\<rparr>,
              e)
        else (Inr (), m, e))"

definition moveCursorLineWrappedOn :: "Host \<Rightarrow> Direction \<Rightarrow> unit Run" where
  "moveCursorLineWrappedOn host direction =
     thenRun (getWrappedLineBounds host) (\<lambda>(wrapStart, wrapEnd).
     thenRun (reads activeLine) (\<lambda>lineNum.
     thenRun (lineTextAt lineNum) (\<lambda>line.
     thenRun (reads (\<lambda>(m, e). lineCount e)) (\<lambda>totalLines.
       if atDocumentBoundary direction wrapStart wrapEnd line lineNum totalLines then returns ()
       else
         thenRun (anchorDesiredColumn line wrapStart) (\<lambda>_.
         thenRun (doDefaultCursorMove host (moveToOf direction)) (\<lambda>_.
         thenRun (reads (\<lambda>(m, e). desiredColumn m)) (\<lambda>column.
         adjustCursorToColumn host column)))))))"

text \<open>
  The public operations see \<open>vscode.window.activeTextEditor\<close>, which may be undefined.
\<close>

type_synonym Session = "WrappedLineMover \<times> TextEditor option"

definition onEditor :: "unit Run \<Rightarrow> WrappedLineMover \<Rightarrow> TextEditor \<Rightarrow> (Failure + unit) \<times> Session" where
  "onEditor f m e = (case f (m, e) of (r, m', e') \<Rightarrow> (r, m', Some e'))"

fun moveCursorLineWrapped :: "Host \<Rightarrow> Direction \<Rightarrow> Session \<Rightarrow> (Failure + unit) \<times> Session" where
  "moveCursorLineWrapped host direction (m, None) = (Inr (), m, None)"
| "moveCursorLineWrapped host direction (m, Some e) =
     (if \<not> isSingleSelection e then (Inr (), m, Some e)
      else onEditor (moveCursorLineWrappedOn host direction) m e)"

definition snapCursorInsideWrappedLine :: "Host \<Rightarrow> unit Run" where
  "snapCursorInsideWrappedLine host =
     thenRun (reads (\<lambda>(m, e). selection e)) (\<lambda>originalSelection.
     thenRun (doDefaultCursorMove host ToWrappedLineEnd) (\<lambda>_.
     thenRun (reads (\<lambda>(m, e). selection e)) (\<lambda>endSelection.
       if isEqual originalSelection endSelection
       then
         (let lineNum = posLine (active endSelection) in
          thenRun (lineTextAt lineNum) (\<lambda>line.
            let newPos = Position lineNum
                           (getLeftColumnCharacter line (posCharacter (active endSelection)))
            in updateSelection (Selection newPos newPos)))
       else updateSelection originalSelection)))"

text \<open>The closure \<open>update\<close> of \<open>registerListeners\<close>.\<close>

fun update :: "Host \<Rightarrow> bool \<Rightarrow> Session \<Rightarrow> (Failure + unit) \<times> Session" where
  "update host snapCursor (m, edOpt) =
     (if isInProgrammaticMove m then (Inr (), m, edOpt)
      else
        (let m1 = m\<lparr>isMoving := False\<rparr> in
         case edOpt of
           None \<Rightarrow> (Inr (), m1, None)
         | Some e \<Rightarrow>
             if posCharacter (active (selection e)) = 0 then (Inr (), m1, Some e)
             else if \<not> isInInsertMode e \<and> snapCursor
             then
               (case lineAt e (posLine (active (selection e))) of
                  Inl x \<Rightarrow> (Inl x, m1, Some e)
                | Inr line \<Rightarrow>
                    if int (length line) \<le> posCharacter (active (selection e))
                    then (Inr (), m1, Some e)
                    else onEditor (snapCursorInsideWrappedLine host) m1 e)
             else (Inr (), m1, Some e)))"

text \<open>
  The three subscriptions. A selection-change event carries its kind, which may be
  undefined, and \<open>e.textEditor\<close>, the editor whose selections changed. The handler tests
  \<open>isSingleSelection\<close> on that editor, while \<open>update\<close> reads and moves
  \<open>vscode.window.activeTextEditor\<close>: the two need not be the same editor.
\<close>

datatype TextEditorSelectionChangeKind = Keyboard | Mouse | Command

datatype Event =
  DidChangeTextEditorSelection "TextEditorSelectionChangeKind option" TextEditor
| DidChangeTextEditorVisibleRanges
| DidChangeActiveTextEditor

fun listener :: "Host \<Rightarrow> Event \<Rightarrow> Session \<Rightarrow> (Failure + unit) \<times> Session" where
  "listener host (DidChangeTextEditorSelection kind textEditor) s =
     update host (kind = Some Mouse \<and> isSingleSelection textEditor) s"
| "listener host DidChangeTextEditorVisibleRanges s = update host False s"
| "listener host DidChangeActiveTextEditor s = update host False s"

text \<open>
  A run of commands with nothing in between: each is invoked on the session the previous
  one left, whatever its outcome was.
\<close>

fun moveCursorLineWrappedAll :: "Host \<Rightarrow> Direction list \<Rightarrow> Session \<Rightarrow> Session" where
  "moveCursorLineWrappedAll host [] s = s"
| "moveCursorLineWrappedAll host (d # ds) s =
     moveCursorLineWrappedAll host ds (snd (moveCursorLineWrapped host d s))"

section \<open>Commands and notifications in sequence\<close>

text \<open>
  What the host can invoke: the two registered commands and the three subscribed events.
  Each invocation runs on the session the previous one left.
\<close>

datatype Invocation = CursorDown | CursorUp | Notified Event

fun invoke :: "Host \<Rightarrow> Invocation \<Rightarrow> Session \<Rightarrow> (Failure + unit) \<times> Session" where
  "invoke host CursorDown s = moveCursorLineWrapped host Down s"
| "invoke host CursorUp s = moveCursorLineWrapped host Up s"
| "invoke host (Notified ev) s = listener host ev s"

fun invokeAll :: "Host \<Rightarrow> Invocation list \<Rightarrow> Session \<Rightarrow> Session" where
  "invokeAll host [] s = s"
| "invokeAll host (c # cs) s = invokeAll host cs (snd (invoke host c s))"

section \<open>When the listener snaps\<close>

text \<open>
  The conditions under which \<open>update\<close> reaches the assignment in
  \<open>snapCursorInsideWrappedLine\<close>, collected from the guards of the source: the event is
  a selection change of kind \<open>Mouse\<close> whose editor has a single empty selection; the
  active editor is not in insert mode, its cursor is not at offset 0 and is inside its
  logical line; and after the host's move to the wrapped-line end its selection
  \<open>isEqual\<close> to the one before.
\<close>

fun snapRequested :: "Event \<Rightarrow> bool" where
  "snapRequested (DidChangeTextEditorSelection kind textEditor) =
     (kind = Some Mouse \<and> isSingleSelection textEditor)"
| "snapRequested DidChangeTextEditorVisibleRanges = False"
| "snapRequested DidChangeActiveTextEditor = False"

definition hangsAtWrappedLineEnd :: "Host \<Rightarrow> TextEditor \<Rightarrow> bool" where
  "hangsAtWrappedLineEnd host e =
     (case host ToWrappedLineEnd e of
        None \<Rightarrow> False
      | Some (p, ps, v) \<Rightarrow> isEqual (selection e) (Selection p p))"

definition insideLine :: "TextEditor \<Rightarrow> bool" where
  "insideLine e =
     (case lineAt e (posLine (active (selection e))) of
        Inl _ \<Rightarrow> False
      | Inr line \<Rightarrow> posCharacter (active (selection e)) < int (length line))"

definition snapApplies :: "Host \<Rightarrow> Event \<Rightarrow> WrappedLineMover \<Rightarrow> TextEditor \<Rightarrow> bool" where
  "snapApplies host ev m e =
     (\<not> isInProgrammaticMove m \<and> snapRequested ev \<and>
      \<not> isInInsertMode e \<and> posCharacter (active (selection e)) \<noteq> 0 \<and>
      insideLine e \<and> hangsAtWrappedLineEnd host e)"

section \<open>Properties kept by a run\<close>

text \<open>
  For the proofs: a run maintains a property of the mover and the editor when the property,
  true before the run, is true after it whatever the outcome. The three properties used
  fix the flag and the desired column, the counter, and the tab size and the document.
\<close>

definition maintains :: "(WrappedLineMover \<times> TextEditor \<Rightarrow> bool) \<Rightarrow> 'a Run \<Rightarrow> bool" where
  "maintains I f = (\<forall>s. I s \<longrightarrow> I (snd (f s)))"

definition counterFree :: "(WrappedLineMover \<times> TextEditor \<Rightarrow> bool) \<Rightarrow> bool" where
  "counterFree I = (\<forall>m e c. I (m\<lparr>programmaticMoveCount := c\<rparr>, e) = I (m, e))"

definition flagsAre :: "bool \<Rightarrow> int \<Rightarrow> WrappedLineMover \<times> TextEditor \<Rightarrow> bool" where
  "flagsAre b d = (\<lambda>(m, e). isMoving m = b \<and> desiredColumn m = d)"

definition counterIs :: "int \<Rightarrow> WrappedLineMover \<times> TextEditor \<Rightarrow> bool" where
  "counterIs c = (\<lambda>(m, e). programmaticMoveCount m = c)"

definition textIs :: "TabSize \<Rightarrow> line_text list \<Rightarrow> WrappedLineMover \<times> TextEditor \<Rightarrow> bool" where
  "textIs t doc = (\<lambda>(m, e). optionsTabSize e = t \<and> document e = doc)"

section \<open>A host and a document for the examples\<close>

text \<open>
  A host that breaks every line after each \<open>w\<close> code units. An offset on a break is the
  start of the segment after it, unless the host's last move put the cursor there as the
  end of the segment before it: \<open>hostView\<close> then holds that offset plus one. The end of
  the line belongs to the last segment. Moving down or up keeps the offset within the
  segment where the target is long enough.
\<close>

definition wrapHost :: "int \<Rightarrow> Host" where
  "wrapHost w to e =
     (let p = active (selection e); l = posLine p; c = posCharacter p in
      case lineAt e l of
        Inl _ \<Rightarrow> None
      | Inr text \<Rightarrow>
          let len = int (length text);
              atEnd = (0 < c \<and> c mod w = 0 \<and> (c = len \<or> hostView e = nat c + 1));
              segStart = (if atEnd then c - w else (c div w) * w);
              segEnd = min len (segStart + w)
          in case to of
               ToWrappedLineStart \<Rightarrow> Some (Position l segStart, [], 0)
             | ToWrappedLineEnd \<Rightarrow> Some (Position l segEnd, [], nat segEnd + 1)
             | ToDown \<Rightarrow>
                 (if segEnd < len then Some (Position l (min len (c + w)), [], 0)
                  else (case lineAt e (l + 1) of
                          Inl _ \<Rightarrow> Some (p, [], hostView e)
                        | Inr next \<Rightarrow>
                            Some (Position (l + 1) (min (int (length next)) (c - segStart)),
                                  [], 0)))
             | ToUp \<Rightarrow>
                 (if 0 < segStart then Some (Position l (c - w), [], 0)
                  else (case lineAt e (l - 1) of
                          Inl _ \<Rightarrow> Some (p, [], hostView e)
                        | Inr prev \<Rightarrow>
                            let plen = int (length prev);
                                lastStart = (if plen = 0 then 0 else ((plen - 1) div w) * w)
                            in Some (Position (l - 1) (min plen (lastStart + c)), [], 0)))
             | ToLeft \<Rightarrow> Some (Position l (max 0 (c - 1)), [], 0)
             | ToRight \<Rightarrow> Some (Position l (min len (c + 1)), [], 0))"

definition rejectingHost :: Host where
  "rejectingHost to e = None"

text \<open>
  The two lines \<open>abcdefgh\<close> and \<open>xy\<close>, an editor with one cursor on them, and the same
  with the cursor shown at the end of the segment before the break it is on.
\<close>

definition sampleDocument :: "line_text list" where
  "sampleDocument = [[97, 98, 99, 100, 101, 102, 103, 104], [120, 121]]"

definition editorAt :: "int \<Rightarrow> int \<Rightarrow> TextEditorCursorStyle \<Rightarrow> TextEditor" where
  "editorAt l c style =
     \<lparr>selection = Selection (Position l c) (Position l c), otherSelections = [],
      optionsCursorStyle = style, optionsTabSize = TabNumber 4, document = sampleDocument,
      hostView = 0\<rparr>"

definition hangingEditorAt :: "int \<Rightarrow> int \<Rightarrow> TextEditorCursorStyle \<Rightarrow> TextEditor" where
  "hangingEditorAt l c style = (editorAt l c style)\<lparr>hostView := nat c + 1\<rparr>"

section \<open>The loops, one step at a time\<close>

lemma walkColumns_stop: "\<not> count < column \<Longrightarrow> walkColumns line wrapEnd column count index l = l"
  by (subst walkColumns.simps) simp

lemma walkColumns_end: "wrapEnd \<le> index \<Longrightarrow> walkColumns line wrapEnd column count index l = l"
  by (subst walkColumns.simps) simp

lemma walkColumns_base:
  "count < column \<Longrightarrow> index < wrapEnd \<Longrightarrow> \<not> isNonBase line index \<Longrightarrow>
   walkColumns line wrapEnd column count index l =
   walkColumns line wrapEnd column (count + 1) (index + 1) index"
  by (subst walkColumns.simps) simp

lemma walkColumns_mark:
  "count < column \<Longrightarrow> index < wrapEnd \<Longrightarrow> isNonBase line index \<Longrightarrow>
   walkColumns line wrapEnd column count index l =
   walkColumns line wrapEnd column count (index + 1) l"
  by (subst walkColumns.simps) simp

lemma countColumns_step:
  "i \<le> character \<Longrightarrow> countColumns line character i count =
     countColumns line character (i + 1) (if \<not> isNonBase line i then count + 1 else count)"
  by (subst countColumns.simps) simp

lemma countColumns_done: "\<not> i \<le> character \<Longrightarrow> countColumns line character i count = count"
  by (subst countColumns.simps) simp

lemma leftWalk_pos_base: "0 < index \<Longrightarrow> \<not> isNonBase line index \<Longrightarrow> leftWalk line index = index"
  by (subst leftWalk.simps) simp

lemma leftWalk_pos_mark: "0 < index \<Longrightarrow> isNonBase line index \<Longrightarrow> leftWalk line index = leftWalk line (index - 1)"
  by (subst leftWalk.simps) simp

lemma leftWalk_nonpos: "\<not> 0 < index \<Longrightarrow> leftWalk line index = index"
  by (subst leftWalk.simps) simp

section \<open>The loops against the specification's wording\<close>

lemma countColumns_filter:
  "countColumns line character i count = count + int (length (visibleOffsets line i character))"
proof (induction line character i count rule: countColumns.induct)
  case (1 line character i count)
  show ?case
  proof (cases "i \<le> character")
    case True
    have "[i..character] = i # [i + 1..character]"
      using True by (simp add: upto_rec1)
    with True "1.IH" show ?thesis
      by (simp add: countColumns_step visibleOffsets_def)
  next
    case False
    then show ?thesis by (simp add: countColumns_done visibleOffsets_def)
  qed
qed

lemma countInitialSpacesFrom_width:
  "countInitialSpacesFrom str tabsize count = count + leadingIndentationWidth str tabsize"
  by (induction str arbitrary: count) (auto simp: leadingIndentationWidth_def)

lemma countInitialSpaces_width: "countInitialSpaces str tabsize = leadingIndentationWidth str tabsize"
  by (simp add: countInitialSpaces_def countInitialSpacesFrom_width)

lemma leadingIndentationWidth_nonneg: "0 \<le> tabsize \<Longrightarrow> 0 \<le> leadingIndentationWidth str tabsize"
  unfolding leadingIndentationWidth_def by (induction str) auto

lemma countColumns_ge: "count \<le> countColumns line character i count"
  by (simp add: countColumns_filter)

lemma countColumns_pos:
  assumes "i \<le> j" "j \<le> character" "\<not> isNonBase line j"
  shows "count + 1 \<le> countColumns line character i count"
proof -
  have "j \<in> set (visibleOffsets line i character)"
    using assms by (simp add: visibleOffsets_def)
  then obtain y ys where "visibleOffsets line i character = y # ys"
    by (cases "visibleOffsets line i character") auto
  then show ?thesis by (simp add: countColumns_filter)
qed

lemma isNonBase_out_of_range: "int (length line) \<le> i \<Longrightarrow> \<not> isNonBase line i"
  by (simp add: isNonBase_def charCodeAt_def)

lemma indentationFix_nonneg: "0 \<le> actualTabSize tabSize \<Longrightarrow> 0 \<le> indentationFix line wrapStart tabSize"
  by (simp add: indentationFix_def countInitialSpaces_width leadingIndentationWidth_nonneg)

section \<open>Where the walks land\<close>

lemma walkColumns_range:
  "walkColumns line wrapEnd column count index l = l \<or>
   (index \<le> walkColumns line wrapEnd column count index l \<and>
    walkColumns line wrapEnd column count index l < wrapEnd)"
proof (induction line wrapEnd column count index l rule: walkColumns.induct)
  case (1 line wrapEnd column count index l)
  consider (stop) "\<not> count < column" | (fin) "wrapEnd \<le> index"
    | (base) "count < column" "index < wrapEnd" "\<not> isNonBase line index"
    | (mark) "count < column" "index < wrapEnd" "isNonBase line index"
    by fastforce
  then show ?case
  proof cases
    case stop then show ?thesis by (simp add: walkColumns_stop)
  next
    case fin then show ?thesis by (simp add: walkColumns_end)
  next
    case base
    with "1.IH"(1) show ?thesis by (auto simp: walkColumns_base)
  next
    case mark
    with "1.IH"(2) show ?thesis by (auto simp: walkColumns_mark)
  qed
qed



lemma leftWalk_range: "0 \<le> index \<Longrightarrow> 0 \<le> leftWalk line index \<and> leftWalk line index \<le> index"
proof (induction line index rule: leftWalk.induct)
  case (1 line index)
  consider (z) "\<not> 0 < index" | (b) "0 < index" "\<not> isNonBase line index"
    | (m) "0 < index" "isNonBase line index" by fastforce
  then show ?case
  proof cases
    case z then show ?thesis using "1.prems" by (simp add: leftWalk_nonpos)
  next
    case b then show ?thesis by (simp add: leftWalk_pos_base)
  next
    case m
    with "1.IH" show ?thesis by (simp add: leftWalk_pos_mark)
  qed
qed


lemma leftWalk_le: "leftWalk line index \<le> index"
proof (induction line index rule: leftWalk.induct)
  case (1 line index)
  consider (z) "\<not> 0 < index" | (b) "0 < index" "\<not> isNonBase line index"
    | (m) "0 < index" "isNonBase line index" by fastforce
  then show ?case
  proof cases
    case z then show ?thesis by (simp add: leftWalk_nonpos)
  next
    case b then show ?thesis by (simp add: leftWalk_pos_base)
  next
    case m
    with "1.IH" show ?thesis by (simp add: leftWalk_pos_mark)
  qed
qed

lemma leftWalk_skips_marks_only:
  "leftWalk line index < j \<Longrightarrow> j \<le> index \<Longrightarrow> isNonBase line j"
proof (induction line index rule: leftWalk.induct)
  case (1 line index)
  consider (z) "\<not> 0 < index" | (b) "0 < index" "\<not> isNonBase line index"
    | (m) "0 < index" "isNonBase line index" by fastforce
  then show ?case
  proof cases
    case z then show ?thesis using "1.prems" by (simp add: leftWalk_nonpos)
  next
    case b then show ?thesis using "1.prems" by (simp add: leftWalk_pos_base)
  next
    case m
    show ?thesis
    proof (cases "j = index")
      case True
      then show ?thesis using m by simp
    next
      case False
      then have "j \<le> index - 1" using "1.prems"(2) by linarith
      moreover have "leftWalk line (index - 1) < j"
        using "1.prems"(1) m by (simp add: leftWalk_pos_mark)
      ultimately show ?thesis using "1.IH" [OF m(1)] m by simp
    qed
  qed
qed

lemma leftWalk_stops_on_base:
  "0 < leftWalk line index \<Longrightarrow> \<not> isNonBase line (leftWalk line index)"
proof (induction line index rule: leftWalk.induct)
  case (1 line index)
  consider (z) "\<not> 0 < index" | (b) "0 < index" "\<not> isNonBase line index"
    | (m) "0 < index" "isNonBase line index" by fastforce
  then show ?case
  proof cases
    case z then show ?thesis using "1.prems" by (simp add: leftWalk_nonpos)
  next
    case b then show ?thesis by (simp add: leftWalk_pos_base)
  next
    case m
    then show ?thesis using "1.IH" [OF m(1)] "1.prems" by (simp add: leftWalk_pos_mark)
  qed
qed

lemma getLeftColumnCharacter_nearest:
  "getLeftColumnCharacter line c < c \<and>
   (\<forall>j. getLeftColumnCharacter line c < j \<and> j < c \<longrightarrow> isNonBase line j) \<and>
   (0 < getLeftColumnCharacter line c \<longrightarrow> \<not> isNonBase line (getLeftColumnCharacter line c)) \<and>
   (0 < c \<longrightarrow> 0 \<le> getLeftColumnCharacter line c)"
  using leftWalk_le [of line "c - 1"] leftWalk_skips_marks_only [of line "c - 1"]
    leftWalk_stops_on_base [of line "c - 1"] leftWalk_range [of "c - 1" line]
  by (auto simp: getLeftColumnCharacter_def)

lemma walkColumns_no_marks:
  "(\<And>i. \<not> isNonBase line i) \<Longrightarrow> count < column \<Longrightarrow> index + (column - count) \<le> wrapEnd \<Longrightarrow>
   walkColumns line wrapEnd column count index l = index + (column - count) - 1"
proof (induction line wrapEnd column count index l rule: walkColumns.induct)
  case (1 line wrapEnd column count index l)
  have lt: "index < wrapEnd" using "1.prems" by linarith
  have nb: "\<not> isNonBase line index" using "1.prems"(1) .
  show ?case
  proof (cases "count + 1 < column")
    case True
    have "walkColumns line wrapEnd column (count + 1) (index + 1) index
          = (index + 1) + (column - (count + 1)) - 1"
      using "1.IH"(1) [OF "1.prems"(2) _ _ "1.prems"(1) True] lt nb "1.prems"(3) by simp
    then show ?thesis using walkColumns_base [OF "1.prems"(2) lt nb] by simp
  next
    case False
    then show ?thesis
      using walkColumns_base [OF "1.prems"(2) lt nb] "1.prems"(2)
      by (simp add: walkColumns_stop)
  qed
qed

lemma no_marks_isNonBase:
  assumes "\<forall>c \<in> set line. c \<notin> set THAI_NON_BASE_CODES"
  shows "\<not> isNonBase line i"
  using assms by (auto simp: isNonBase_def charCodeAt_def split: option.splits if_splits)

lemma visibleOffsets_no_marks:
  "(\<And>i. \<not> isNonBase line i) \<Longrightarrow> visibleOffsets line a b = [a..b]"
  by (simp add: visibleOffsets_def)

section \<open>Composing runs\<close>

lemma maintainsD: "maintains I f \<Longrightarrow> I s \<Longrightarrow> f s = (r, s') \<Longrightarrow> I s'"
  unfolding maintains_def by (metis snd_conv)

lemma maintains_returns: "maintains I (returns a)"
  by (simp add: maintains_def returns_def)

lemma maintains_reads: "maintains I (reads f)"
  by (simp add: maintains_def reads_def)

lemma maintains_lineTextAt: "maintains I (lineTextAt n)"
  by (simp add: maintains_def lineTextAt_def split: prod.splits)

lemma maintains_thenRun:
  assumes "maintains I f" and "\<And>a. maintains I (g a)"
  shows "maintains I (thenRun f g)"
  unfolding maintains_def
proof (intro allI impI)
  fix s assume s: "I s"
  obtain r s' where f: "f s = (r, s')" by (cases "f s")
  have s': "I s'" using assms(1) s f by (rule maintainsD)
  show "I (snd (thenRun f g s))"
  proof (cases r)
    case (Inl x)
    then show ?thesis using f s' by (simp add: thenRun_def)
  next
    case (Inr a)
    then have "thenRun f g s = g a s'" using f by (simp add: thenRun_def)
    moreover have "I (snd (g a s'))"
      using maintainsD [OF assms(2) [of a] s', of "fst (g a s')" "snd (g a s')"] by simp
    ultimately show ?thesis by simp
  qed
qed

lemma maintains_if: "maintains I f \<Longrightarrow> maintains I g \<Longrightarrow> maintains I (if b then f else g)"
  by simp

lemma maintains_let: "(\<And>x. maintains I (f x)) \<Longrightarrow> maintains I (let x = a in f x)"
  by simp

lemma maintains_runProgrammaticMove:
  assumes "counterFree I" and "maintains I action"
  shows "maintains I (runProgrammaticMove action)"
  unfolding maintains_def
proof (intro allI impI)
  fix s :: "WrappedLineMover \<times> TextEditor" assume s: "I s"
  obtain m e where [simp]: "s = (m, e)" by (cases s)
  let ?s1 = "(m\<lparr>programmaticMoveCount := programmaticMoveCount m + 1\<rparr>, e)"
  obtain r m' e' where a: "action ?s1 = (r, m', e')" by (cases "action ?s1")
  have "I ?s1" using assms(1) s by (simp add: counterFree_def)
  then have "I (m', e')" using assms(2) a by (auto dest: maintainsD)
  then show "I (snd (runProgrammaticMove action s))"
    using assms(1) a by (simp add: runProgrammaticMove_def counterFree_def)
qed

lemma counter_runProgrammaticMove:
  assumes "0 \<le> c"
    and "maintains (\<lambda>(m, e). programmaticMoveCount m = c + 1) action"
  shows "maintains (\<lambda>(m, e). programmaticMoveCount m = c) (runProgrammaticMove action)"
  unfolding maintains_def
proof (intro allI impI)
  fix s :: "WrappedLineMover \<times> TextEditor"
  assume s: "case s of (m, e) \<Rightarrow> programmaticMoveCount m = c"
  obtain m e where [simp]: "s = (m, e)" by (cases s)
  let ?s1 = "(m\<lparr>programmaticMoveCount := programmaticMoveCount m + 1\<rparr>, e)"
  obtain r m' e' where a: "action ?s1 = (r, m', e')" by (cases "action ?s1")
  have "programmaticMoveCount m' = c + 1"
    using maintainsD [OF assms(2) _ a] s by simp
  then show "case snd (runProgrammaticMove action s) of (m, e) \<Rightarrow> programmaticMoveCount m = c"
    using assms(1) a by (simp add: runProgrammaticMove_def)
qed

lemma executeCursorMove_counter:
  "maintains (\<lambda>(m, e). programmaticMoveCount m = k) (executeCursorMove host to)"
  by (auto simp: maintains_def executeCursorMove_def split: option.splits)

lemma executeCursorMove_flags:
  "maintains (\<lambda>(m, e). isMoving m = b \<and> desiredColumn m = d) (executeCursorMove host to)"
  by (auto simp: maintains_def executeCursorMove_def split: option.splits)

lemma maintains_case_prod:
  "(\<And>a b. maintains I (f a b)) \<Longrightarrow> maintains I (case p of (a, b) \<Rightarrow> f a b)"
  by (cases p) simp

lemma counterFree_flagsAre: "counterFree (flagsAre b d)"
  by (simp add: counterFree_def flagsAre_def)

lemma counterFree_textIs: "counterFree (textIs t doc)"
  by (simp add: counterFree_def textIs_def)

lemma setCursorStyle_flags: "maintains (flagsAre b d) (setCursorStyle st)"
  by (simp add: maintains_def flagsAre_def setCursorStyle_def)

lemma setCursorStyle_counter: "maintains (counterIs c) (setCursorStyle st)"
  by (simp add: maintains_def counterIs_def setCursorStyle_def)

lemma setCursorStyle_text: "maintains (textIs t doc) (setCursorStyle st)"
  by (simp add: maintains_def textIs_def setCursorStyle_def)

lemma doDefaultCursorMove_flags: "maintains (flagsAre b d) (doDefaultCursorMove host to)"
  unfolding doDefaultCursorMove_def
  by (intro maintains_runProgrammaticMove counterFree_flagsAre)
     (auto simp: maintains_def flagsAre_def executeCursorMove_def split: option.splits)

lemma doDefaultCursorMove_text: "maintains (textIs t doc) (doDefaultCursorMove host to)"
  unfolding doDefaultCursorMove_def
  by (intro maintains_runProgrammaticMove counterFree_textIs)
     (auto simp: maintains_def textIs_def executeCursorMove_def split: option.splits)

lemma doDefaultCursorMove_counter:
  "0 \<le> c \<Longrightarrow> maintains (counterIs c) (doDefaultCursorMove host to)"
  unfolding doDefaultCursorMove_def counterIs_def
  by (rule counter_runProgrammaticMove)
     (auto simp: maintains_def executeCursorMove_def split: option.splits)

lemma updateSelection_flags: "maintains (flagsAre b d) (updateSelection sel)"
  unfolding updateSelection_def
  by (intro maintains_runProgrammaticMove counterFree_flagsAre)
     (auto simp: maintains_def flagsAre_def)

lemma updateSelection_text: "maintains (textIs t doc) (updateSelection sel)"
  unfolding updateSelection_def
  by (intro maintains_runProgrammaticMove counterFree_textIs)
     (auto simp: maintains_def textIs_def)

lemma updateSelection_counter: "0 \<le> c \<Longrightarrow> maintains (counterIs c) (updateSelection sel)"
  unfolding updateSelection_def counterIs_def
  by (rule counter_runProgrammaticMove) (auto simp: maintains_def)

lemmas maintains_structure =
  maintains_thenRun maintains_returns maintains_reads maintains_lineTextAt
  maintains_case_prod maintains_if maintains_let

lemma getWrappedLineBounds_flags: "maintains (flagsAre b d) (getWrappedLineBounds host)"
  unfolding getWrappedLineBounds_def
  by (intro maintains_structure setCursorStyle_flags doDefaultCursorMove_flags updateSelection_flags)

lemma getWrappedLineBounds_text: "maintains (textIs t doc) (getWrappedLineBounds host)"
  unfolding getWrappedLineBounds_def
  by (intro maintains_structure setCursorStyle_text doDefaultCursorMove_text updateSelection_text)

lemma getWrappedLineBounds_counter:
  "0 \<le> c \<Longrightarrow> maintains (counterIs c) (getWrappedLineBounds host)"
  unfolding getWrappedLineBounds_def
  by (intro maintains_structure setCursorStyle_counter doDefaultCursorMove_counter
        updateSelection_counter)

lemma adjustCursorToColumn_flags: "maintains (flagsAre b d) (adjustCursorToColumn host column)"
  unfolding adjustCursorToColumn_def
  by (intro maintains_structure getWrappedLineBounds_flags updateSelection_flags)

lemma adjustCursorToColumn_counter:
  "0 \<le> c \<Longrightarrow> maintains (counterIs c) (adjustCursorToColumn host column)"
  unfolding adjustCursorToColumn_def
  by (intro maintains_structure getWrappedLineBounds_counter updateSelection_counter)

lemma anchorDesiredColumn_counter: "maintains (counterIs c) (anchorDesiredColumn line wrapStart)"
  by (simp add: maintains_def counterIs_def anchorDesiredColumn_def)

lemma anchorDesiredColumn_moving:
  "maintains (flagsAre True d) (anchorDesiredColumn line wrapStart)"
  by (simp add: maintains_def flagsAre_def anchorDesiredColumn_def)

lemma moveCursorLineWrappedOn_counter:
  "0 \<le> c \<Longrightarrow> maintains (counterIs c) (moveCursorLineWrappedOn host direction)"
  unfolding moveCursorLineWrappedOn_def
  by (intro maintains_structure getWrappedLineBounds_counter anchorDesiredColumn_counter
        doDefaultCursorMove_counter adjustCursorToColumn_counter)

lemma moveCursorLineWrappedOn_moving:
  "maintains (flagsAre True d) (moveCursorLineWrappedOn host direction)"
  unfolding moveCursorLineWrappedOn_def
  by (intro maintains_structure getWrappedLineBounds_flags anchorDesiredColumn_moving
        doDefaultCursorMove_flags adjustCursorToColumn_flags)

lemma snapCursorInsideWrappedLine_flags:
  "maintains (flagsAre b d) (snapCursorInsideWrappedLine host)"
  unfolding snapCursorInsideWrappedLine_def
  by (intro maintains_structure doDefaultCursorMove_flags updateSelection_flags)

lemma snapCursorInsideWrappedLine_counter:
  "0 \<le> c \<Longrightarrow> maintains (counterIs c) (snapCursorInsideWrappedLine host)"
  unfolding snapCursorInsideWrappedLine_def
  by (intro maintains_structure doDefaultCursorMove_counter updateSelection_counter)

section \<open>The guarded primitives, applied\<close>

lemma isEqual_empty_right: "isEqual sel (Selection p p) \<Longrightarrow> sel = Selection p p"
  by (cases sel) (auto simp: isEqual_def rangeStart_def rangeEnd_def isBefore_def split: if_splits)

lemma isEqual_empty: "isEqual (Selection p p) sel \<Longrightarrow> sel = Selection p p"
  by (cases sel) (auto simp: isEqual_def rangeStart_def rangeEnd_def isBefore_def split: if_splits)

lemma isEmpty_iff: "isEmpty sel \<longleftrightarrow> anchor sel = active sel"
  by (cases sel) (auto simp: isEmpty_def rangeStart_def rangeEnd_def isBefore_def)

lemma doDefaultCursorMove_apply:
  "doDefaultCursorMove host to (m, e) =
     (case host to e of
        None \<Rightarrow>
          (Inl CommandRejected,
           m\<lparr>issued := issued m @ [to], programmaticMoveCount := max 0 (programmaticMoveCount m)\<rparr>, e)
      | Some (p, ps, v) \<Rightarrow>
          (Inr (),
           m\<lparr>issued := issued m @ [to], programmaticMoveCount := max 0 (programmaticMoveCount m)\<rparr>,
           e\<lparr>selection := Selection p p, otherSelections := map (\<lambda>q. Selection q q) ps,
             hostView := v\<rparr>))"
  by (simp add: doDefaultCursorMove_def runProgrammaticMove_def executeCursorMove_def
      split: option.splits)

lemma updateSelection_apply:
  "updateSelection sel (m, e) =
     (Inr (), m\<lparr>programmaticMoveCount := max 0 (programmaticMoveCount m)\<rparr>,
      if isEqual (selection e) sel then e else e\<lparr>selection := sel, otherSelections := []\<rparr>)"
  by (simp add: updateSelection_def runProgrammaticMove_def)

lemma getWrappedLineBounds_Inr:
  assumes "fst (getWrappedLineBounds host (m, e)) = Inr (ws, we)"
  shows "selection (snd (snd (getWrappedLineBounds host (m, e)))) = selection e"
    and "optionsCursorStyle (snd (snd (getWrappedLineBounds host (m, e)))) = Block"
    and "issued (fst (snd (getWrappedLineBounds host (m, e)))) =
           issued m @ [ToWrappedLineStart, ToWrappedLineEnd]"
  using assms
  by (auto simp: getWrappedLineBounds_def thenRun_def setCursorStyle_def reads_def returns_def
        doDefaultCursorMove_apply updateSelection_apply activeCharacter_def
      split: option.splits prod.splits sum.splits if_splits dest: isEqual_empty)

lemma isEqual_points [simp]: "isEqual (Selection q q) (Selection p p) \<longleftrightarrow> q = p"
  by (auto simp: isEqual_def rangeStart_def rangeEnd_def isBefore_def)

lemma lineAt_selection_update [simp]:
  "lineAt (e\<lparr>selection := s, otherSelections := os, hostView := v\<rparr>) n = lineAt e n"
  by (simp add: lineAt_def)

lemma onEditor_parts:
  "fst (onEditor f m e) = fst (f (m, e))"
  "fst (snd (onEditor f m e)) = fst (snd (f (m, e)))"
  "snd (snd (onEditor f m e)) = Some (snd (snd (f (m, e))))"
  by (simp_all add: onEditor_def split: prod.splits)

lemma snap_moves_left:
  assumes "host ToWrappedLineEnd e = Some (Position l c, ps, v)"
    and "isEqual (selection e) (Selection (Position l c) (Position l c))"
    and "lineAt e l = Inr line"
  shows "fst (snapCursorInsideWrappedLine host (m, e)) = Inr () \<and>
         selection (snd (snd (snapCursorInsideWrappedLine host (m, e)))) =
           Selection (Position l (getLeftColumnCharacter line c))
                     (Position l (getLeftColumnCharacter line c))"
  using assms
  by (auto simp: snapCursorInsideWrappedLine_def thenRun_def reads_def lineTextAt_def
        doDefaultCursorMove_apply updateSelection_apply Let_def dest: isEqual_empty_right)

lemma snap_restores:
  assumes "\<And>p ps v. host ToWrappedLineEnd e = Some (p, ps, v) \<Longrightarrow>
             \<not> isEqual (selection e) (Selection p p)"
  shows "selection (snd (snd (snapCursorInsideWrappedLine host (m, e)))) = selection e"
proof (cases "host ToWrappedLineEnd e")
  case None
  then show ?thesis
    by (simp add: snapCursorInsideWrappedLine_def thenRun_def reads_def doDefaultCursorMove_apply)
next
  case (Some a)
  obtain p ps v where a: "a = (p, ps, v)" by (cases a)
  have neq: "\<not> isEqual (selection e) (Selection p p)"
    using assms [of p ps v] Some a by simp
  have "\<not> isEqual (Selection p p) (selection e)"
    using neq isEqual_empty [of p "selection e"] by auto
  then show ?thesis
    using Some a neq
    by (simp add: snapCursorInsideWrappedLine_def thenRun_def reads_def
          doDefaultCursorMove_apply updateSelection_apply)
qed

lemma listener_update: "listener host ev s = update host (snapRequested ev) s"
  by (cases ev) simp_all

lemma update_no_snap: "snd (snd (update host False (m, eo))) = eo"
  by (auto simp: Let_def split: option.splits)

section \<open>The bounds probe and the move\<close>

lemma getWrappedLineBounds_frame:
  "isMoving (fst (snd (getWrappedLineBounds host (m, e)))) = isMoving m"
  "desiredColumn (fst (snd (getWrappedLineBounds host (m, e)))) = desiredColumn m"
  "optionsTabSize (snd (snd (getWrappedLineBounds host (m, e)))) = optionsTabSize e"
  "document (snd (snd (getWrappedLineBounds host (m, e)))) = document e"
proof -
  obtain r m' e' where g: "getWrappedLineBounds host (m, e) = (r, m', e')"
    by (cases "getWrappedLineBounds host (m, e)")
  have "flagsAre (isMoving m) (desiredColumn m) (m', e')"
    by (rule maintainsD [OF getWrappedLineBounds_flags _ g]) (simp add: flagsAre_def)
  moreover have "textIs (optionsTabSize e) (document e) (m', e')"
    by (rule maintainsD [OF getWrappedLineBounds_text _ g]) (simp add: textIs_def)
  ultimately show
    "isMoving (fst (snd (getWrappedLineBounds host (m, e)))) = isMoving m"
    "desiredColumn (fst (snd (getWrappedLineBounds host (m, e)))) = desiredColumn m"
    "optionsTabSize (snd (snd (getWrappedLineBounds host (m, e)))) = optionsTabSize e"
    "document (snd (snd (getWrappedLineBounds host (m, e)))) = document e"
    using g by (simp_all add: flagsAre_def textIs_def)
qed

lemma updateSelection_point:
  "selection (snd (snd (updateSelection (Selection p p) (m, e)))) = Selection p p"
  by (auto simp: updateSelection_apply dest: isEqual_empty_right)

lemma adjustCursorToColumn_lands:
  assumes "fst (getWrappedLineBounds host (m, e)) = Inr (ws, we)"
    and "lineAt e (posLine (active (selection e))) = Inr line"
  shows "fst (adjustCursorToColumn host column (m, e)) = Inr () \<and>
         selection (snd (snd (adjustCursorToColumn host column (m, e)))) =
           Selection
             (Position (posLine (active (selection e)))
                (getCharacterFromColumn line ws we column (optionsTabSize e)))
             (Position (posLine (active (selection e)))
                (getCharacterFromColumn line ws we column (optionsTabSize e)))"
proof -
  obtain m1 e1 where g: "getWrappedLineBounds host (m, e) = (Inr (ws, we), m1, e1)"
    using assms(1) by (cases "getWrappedLineBounds host (m, e)") auto
  have e1: "selection e1 = selection e" "optionsTabSize e1 = optionsTabSize e"
    "document e1 = document e"
    using getWrappedLineBounds_Inr(1) [OF assms(1)] getWrappedLineBounds_frame(3,4) [of host m e] g
    by simp_all
  have line: "lineAt e1 (posLine (active (selection e))) = Inr line"
    using assms(2) e1(3) by (simp add: lineAt_def split: if_splits)
  let ?p = "Position (posLine (active (selection e)))
              (getCharacterFromColumn line ws we column (optionsTabSize e))"
  have "adjustCursorToColumn host column (m, e) = updateSelection (Selection ?p ?p) (m1, e1)"
    using g e1 line
    by (simp add: adjustCursorToColumn_def thenRun_def reads_def activeLine_def lineTextAt_def
          Let_def)
  then show ?thesis
    using updateSelection_point [of ?p m1 e1] by (simp add: updateSelection_apply)
qed

text \<open>What \<open>moveCursorLineWrappedOn\<close> does once the bounds and the line are known.\<close>

lemma moveCursorLineWrappedOn_after_bounds:
  assumes "fst (getWrappedLineBounds host (m, e)) = Inr (ws, we)"
    and "lineAt e (posLine (active (selection e))) = Inr line"
  shows "moveCursorLineWrappedOn host direction (m, e) =
           (if atDocumentBoundary direction ws we line (posLine (active (selection e))) (lineCount e)
            then (Inr (), snd (getWrappedLineBounds host (m, e)))
            else thenRun (anchorDesiredColumn line ws) (\<lambda>_.
                 thenRun (doDefaultCursorMove host (moveToOf direction)) (\<lambda>_.
                 thenRun (reads (\<lambda>(m, e). desiredColumn m)) (\<lambda>column.
                 adjustCursorToColumn host column)))
                   (snd (getWrappedLineBounds host (m, e))))"
proof -
  obtain m1 e1 where g: "getWrappedLineBounds host (m, e) = (Inr (ws, we), m1, e1)"
    using assms(1) by (cases "getWrappedLineBounds host (m, e)") auto
  have sel: "selection e1 = selection e"
    using getWrappedLineBounds_Inr(1) [OF assms(1)] g by simp
  have doc: "document e1 = document e"
    using getWrappedLineBounds_frame(4) [of host m e] g by simp
  have line: "lineAt e1 (posLine (active (selection e))) = Inr line"
    using assms(2) doc by (simp add: lineAt_def split: if_splits)
  show ?thesis
    using g sel doc line
    by (simp add: moveCursorLineWrappedOn_def thenRun_def reads_def activeLine_def
          lineTextAt_def returns_def lineCount_def)
qed

section \<open>Sequences, notifications and the counter\<close>

lemma moveCursorLineWrapped_keeps_sequence:
  assumes "isMoving m"
  shows "isMoving (fst (snd (moveCursorLineWrapped host direction (m, eo)))) \<and>
         desiredColumn (fst (snd (moveCursorLineWrapped host direction (m, eo)))) = desiredColumn m"
proof (cases eo)
  case None
  then show ?thesis using assms by simp
next
  case (Some e)
  obtain r m' e' where g: "moveCursorLineWrappedOn host direction (m, e) = (r, m', e')"
    by (cases "moveCursorLineWrappedOn host direction (m, e)")
  have "flagsAre True (desiredColumn m) (m', e')"
    by (rule maintainsD [OF moveCursorLineWrappedOn_moving _ g]) (simp add: flagsAre_def assms)
  then show ?thesis
    using Some assms g by (simp add: onEditor_def flagsAre_def)
qed

lemma moveCursorLineWrappedAll_keeps_sequence:
  "isMoving (fst s) \<Longrightarrow>
   isMoving (fst (moveCursorLineWrappedAll host ds s)) \<and>
   desiredColumn (fst (moveCursorLineWrappedAll host ds s)) = desiredColumn (fst s)"
proof (induction ds arbitrary: s)
  case Nil
  then show ?case by simp
next
  case (Cons d ds)
  obtain m eo where s: "s = (m, eo)" by (cases s)
  let ?s' = "snd (moveCursorLineWrapped host d (m, eo))"
  have step: "isMoving (fst ?s') \<and> desiredColumn (fst ?s') = desiredColumn m"
    using moveCursorLineWrapped_keeps_sequence [of m host d eo] Cons.prems s by simp
  then show ?case
    using Cons.IH [of ?s'] s by simp
qed

lemma moveCursorLineWrapped_anchors:
  assumes "\<not> isMoving m" and "isSingleSelection e"
    and "fst (getWrappedLineBounds host (m, e)) = Inr (ws, we)"
    and "lineAt e (posLine (active (selection e))) = Inr line"
    and "\<not> atDocumentBoundary direction ws we line (posLine (active (selection e))) (lineCount e)"
  shows "isMoving (fst (snd (moveCursorLineWrapped host direction (m, Some e)))) \<and>
         desiredColumn (fst (snd (moveCursorLineWrapped host direction (m, Some e)))) =
           getColumnFromCharacter line ws (posCharacter (active (selection e))) (optionsTabSize e)"
proof -
  let ?col = "getColumnFromCharacter line ws (posCharacter (active (selection e))) (optionsTabSize e)"
  let ?rest = "thenRun (doDefaultCursorMove host (moveToOf direction)) (\<lambda>_.
                 thenRun (reads (\<lambda>(m, e). desiredColumn m)) (\<lambda>column.
                 adjustCursorToColumn host column))"
  obtain m1 e1 where g: "getWrappedLineBounds host (m, e) = (Inr (ws, we), m1, e1)"
    using assms(3) by (cases "getWrappedLineBounds host (m, e)") auto
  have e1: "selection e1 = selection e" "optionsTabSize e1 = optionsTabSize e"
    using getWrappedLineBounds_Inr(1) [OF assms(3)] getWrappedLineBounds_frame(3) [of host m e] g
    by simp_all
  have m1: "\<not> isMoving m1"
    using getWrappedLineBounds_frame(1) [of host m e] g assms(1) by simp
  have on: "moveCursorLineWrappedOn host direction (m, e) =
              ?rest (m1\<lparr>isMoving := True, desiredColumn := ?col\<rparr>, e1)"
    using moveCursorLineWrappedOn_after_bounds [OF assms(3,4), of direction] assms(5) g e1 m1
    by (simp add: thenRun_def anchorDesiredColumn_def)
  have rest: "maintains (flagsAre True ?col) ?rest"
    by (intro maintains_structure doDefaultCursorMove_flags adjustCursorToColumn_flags)
  obtain r m' e' where r: "?rest (m1\<lparr>isMoving := True, desiredColumn := ?col\<rparr>, e1) = (r, m', e')"
    by (cases "?rest (m1\<lparr>isMoving := True, desiredColumn := ?col\<rparr>, e1)")
  have "flagsAre True ?col (m', e')"
    by (rule maintainsD [OF rest _ r]) (simp add: flagsAre_def)
  then show ?thesis
    using assms(2) on r by (simp add: onEditor_def flagsAre_def)
qed

lemma update_in_programmatic_move:
  "isInProgrammaticMove m \<Longrightarrow> update host snap (m, eo) = (Inr (), m, eo)"
  by simp

lemma listener_in_programmatic_move:
  "isInProgrammaticMove m \<Longrightarrow> listener host ev (m, eo) = (Inr (), m, eo)"
  by (cases ev) simp_all

lemma snap_result_flags:
  "isMoving (fst (snd (onEditor (snapCursorInsideWrappedLine host) m e))) = isMoving m"
proof -
  obtain r m' e' where g: "snapCursorInsideWrappedLine host (m, e) = (r, m', e')"
    by (cases "snapCursorInsideWrappedLine host (m, e)")
  have "flagsAre (isMoving m) (desiredColumn m) (m', e')"
    by (rule maintainsD [OF snapCursorInsideWrappedLine_flags _ g]) (simp add: flagsAre_def)
  then show ?thesis using g by (simp add: onEditor_def flagsAre_def)
qed

lemma update_clears:
  "\<not> isInProgrammaticMove m \<Longrightarrow> \<not> isMoving (fst (snd (update host snap (m, eo))))"
  using snap_result_flags [of host "m\<lparr>isMoving := False\<rparr>"]
  by (auto simp: Let_def split: option.splits sum.splits)

lemma listener_clears:
  "\<not> isInProgrammaticMove m \<Longrightarrow> \<not> isMoving (fst (snd (listener host ev (m, eo))))"
  by (cases ev) (simp_all only: listener.simps update_clears not_False_eq_True)

lemma runProgrammaticMove_counter:
  assumes "0 \<le> programmaticMoveCount m"
    and "\<forall>s. programmaticMoveCount (fst (snd (action s))) = programmaticMoveCount (fst s)"
  shows "programmaticMoveCount (fst (snd (runProgrammaticMove action (m, e)))) = programmaticMoveCount m"
  using assms(1) assms(2) [rule_format, of "(m\<lparr>programmaticMoveCount := programmaticMoveCount m + 1\<rparr>, e)"]
  by (auto simp: runProgrammaticMove_def split: prod.splits)

lemma runProgrammaticMove_outcome:
  "fst (runProgrammaticMove action (m, e)) =
   fst (action (m\<lparr>programmaticMoveCount := programmaticMoveCount m + 1\<rparr>, e))"
  by (simp add: runProgrammaticMove_def split: prod.splits)

lemma runProgrammaticMove_nonneg:
  "0 \<le> programmaticMoveCount (fst (snd (runProgrammaticMove action s)))"
  by (cases s) (simp add: runProgrammaticMove_def split: prod.splits)

lemma runProgrammaticMove_guarded:
  assumes "0 \<le> programmaticMoveCount m"
  shows "runProgrammaticMove (\<lambda>s. if isInProgrammaticMove (fst s) then action s else other s) (m, e)
         = runProgrammaticMove action (m, e)"
  using assms by (simp add: runProgrammaticMove_def isInProgrammaticMove_def)

lemma moveCursorLineWrapped_counter:
  assumes "0 \<le> programmaticMoveCount m"
  shows "programmaticMoveCount (fst (snd (moveCursorLineWrapped host direction (m, eo)))) =
         programmaticMoveCount m"
proof (cases eo)
  case None
  then show ?thesis by simp
next
  case (Some e)
  obtain r m' e' where g: "moveCursorLineWrappedOn host direction (m, e) = (r, m', e')"
    by (cases "moveCursorLineWrappedOn host direction (m, e)")
  have "counterIs (programmaticMoveCount m) (m', e')"
    by (rule maintainsD [OF moveCursorLineWrappedOn_counter [OF assms] _ g]) (simp add: counterIs_def)
  then show ?thesis using Some g by (simp add: onEditor_def counterIs_def)
qed

lemma snap_result_counter:
  assumes "0 \<le> programmaticMoveCount m"
  shows "programmaticMoveCount (fst (snd (onEditor (snapCursorInsideWrappedLine host) m e))) =
         programmaticMoveCount m"
proof -
  obtain r m' e' where g: "snapCursorInsideWrappedLine host (m, e) = (r, m', e')"
    by (cases "snapCursorInsideWrappedLine host (m, e)")
  have "counterIs (programmaticMoveCount m) (m', e')"
    by (rule maintainsD [OF snapCursorInsideWrappedLine_counter [OF assms] _ g])
       (simp add: counterIs_def)
  then show ?thesis using g by (simp add: onEditor_def counterIs_def)
qed

lemma update_counter:
  assumes "0 \<le> programmaticMoveCount m"
  shows "programmaticMoveCount (fst (snd (update host snap (m, eo)))) = programmaticMoveCount m"
  using snap_result_counter [of "m\<lparr>isMoving := False\<rparr>" host] assms
  by (auto simp: Let_def split: option.splits sum.splits)

lemma listener_counter:
  assumes "0 \<le> programmaticMoveCount m"
  shows "programmaticMoveCount (fst (snd (listener host ev (m, eo)))) = programmaticMoveCount m"
  using assms by (cases ev) (simp_all only: listener.simps update_counter)

lemma invoke_counter:
  assumes "0 \<le> programmaticMoveCount (fst s)"
  shows "programmaticMoveCount (fst (snd (invoke host i s))) = programmaticMoveCount (fst s)"
  using assms
  by (cases s; cases i) (simp_all only: invoke.simps fst_conv moveCursorLineWrapped_counter listener_counter)

lemma invokeAll_counter:
  "0 \<le> programmaticMoveCount (fst s) \<Longrightarrow>
   programmaticMoveCount (fst (invokeAll host cs s)) = programmaticMoveCount (fst s)"
proof (induction cs arbitrary: s)
  case Nil
  then show ?case by simp
next
  case (Cons c cs)
  have "programmaticMoveCount (fst (snd (invoke host c s))) = programmaticMoveCount (fst s)"
    using Cons.prems by (rule invoke_counter)
  then show ?case using Cons.IH [of "snd (invoke host c s)"] Cons.prems by simp
qed

section \<open>Evaluation of the examples\<close>

lemmas run_defs =
  getWrappedLineBounds_def adjustCursorToColumn_def moveCursorLineWrappedOn_def
  snapCursorInsideWrappedLine_def anchorDesiredColumn_def atDocumentBoundary_def
  thenRun_def reads_def returns_def setCursorStyle_def lineTextAt_def activeCharacter_def
  activeLine_def doDefaultCursorMove_apply updateSelection_apply onEditor_def
  isSingleSelection_def isEmpty_iff isInInsertMode_def isInProgrammaticMove_def
  lineAt_def lineCount_def Let_def

lemmas sample_defs = wrapHost_def editorAt_def sampleDocument_def newMover_def

lemmas codec_defs =
  getColumnFromCharacter_def getCharacterFromColumn_def indentationFix_def
  countInitialSpaces_def countColumns.simps walkColumns.simps leftWalk.simps
  getLeftColumnCharacter_def isNonBase_def charCodeAt_def THAI_NON_BASE_CODES_def

section \<open>Claims about the column codec\<close>

text \<open>
  C2. For every line that holds no code of the combining-mark set, every span, every tab
  size and every offset \<open>x\<close> with \<open>wrapStart \<le> x < wrapEnd\<close>, converting \<open>x\<close> to its
  visual column and the column back to an offset gives \<open>x\<close> again.
\<close>

theorem getCharacterFromColumn_getColumnFromCharacter:
  assumes "\<forall>c \<in> set line. c \<notin> set THAI_NON_BASE_CODES"
    and "wrapStart \<le> x" and "x < wrapEnd"
  shows "getCharacterFromColumn line wrapStart wrapEnd
           (getColumnFromCharacter line wrapStart x ts) ts = x"
proof -
  have nm: "\<And>i. \<not> isNonBase line i" using assms(1) by (rule no_marks_isNonBase)
  have col: "getColumnFromCharacter line wrapStart x ts
             = (x - wrapStart + 1) + indentationFix line wrapStart ts"
    using assms(2)
    by (simp add: getColumnFromCharacter_def countColumns_filter visibleOffsets_no_marks [OF nm])
  show ?thesis
    unfolding getCharacterFromColumn_def col
    using assms(2,3) by (subst walkColumns_no_marks [OF nm]) auto
qed

theorem getCharacterFromColumn_getColumnFromCharacter_witness:
  "set [9, 32, 97, 98, 99, 100] \<inter> set THAI_NON_BASE_CODES = {} \<and> (4::int) \<le> 5 \<and> (5::int) < 6 \<and>
   getCharacterFromColumn [9, 32, 97, 98, 99, 100] 4 6
     (getColumnFromCharacter [9, 32, 97, 98, 99, 100] 4 5 (TabNumber 4)) (TabNumber 4) = 5"
proof -
  have h: "\<forall>c \<in> set [9, 32, 97, 98, 99, 100]. c \<notin> set THAI_NON_BASE_CODES"
    by (simp add: THAI_NON_BASE_CODES_def)
  then have "set [9, 32, 97, 98, 99, 100] \<inter> set THAI_NON_BASE_CODES = {}"
    by blast
  then show ?thesis
    using getCharacterFromColumn_getColumnFromCharacter [OF h, of 4 5 6 "TabNumber 4"]
    by simp
qed




text \<open>
  C5. For every line, every span with \<open>wrapStart \<le> wrapEnd\<close>, every column and every tab
  size, the offset \<open>r\<close> that \<open>getCharacterFromColumn\<close> returns satisfies
  \<open>wrapStart \<le> r \<le> max (wrapEnd - 1) wrapStart\<close>: never before the span start, never at or
  past the span end, and equal to \<open>wrapStart\<close> when the span is empty. It is the offset
  applied after a move: when the probe in \<open>adjustCursorToColumn\<close> returns that span on
  that line, the method returns with the cursor at exactly that offset of the line.
\<close>

theorem getCharacterFromColumn_clamped:
  assumes "wrapStart \<le> wrapEnd"
  shows "wrapStart \<le> getCharacterFromColumn line wrapStart wrapEnd column ts \<and>
         getCharacterFromColumn line wrapStart wrapEnd column ts \<le> max (wrapEnd - 1) wrapStart \<and>
         (wrapStart = wrapEnd \<longrightarrow>
            getCharacterFromColumn line wrapStart wrapEnd column ts = wrapStart) \<and>
         (fst (getWrappedLineBounds host (m, e)) = Inr (wrapStart, wrapEnd) \<longrightarrow>
          lineAt e (posLine (active (selection e))) = Inr line \<longrightarrow>
          optionsTabSize e = ts \<longrightarrow>
            fst (adjustCursorToColumn host column (m, e)) = Inr () \<and>
            active (selection (snd (snd (adjustCursorToColumn host column (m, e))))) =
              Position (posLine (active (selection e)))
                (getCharacterFromColumn line wrapStart wrapEnd column ts))"
  using assms
    walkColumns_range [of line wrapEnd column "indentationFix line wrapStart ts" wrapStart wrapStart]
    adjustCursorToColumn_lands [of host m e wrapStart wrapEnd line column]
  by (auto simp: getCharacterFromColumn_def)

theorem getCharacterFromColumn_clamped_witness:
  "(4::int) \<le> 8 \<and>
   fst (getWrappedLineBounds (wrapHost 4) (newMover, editorAt 0 5 Block)) = Inr (4, 8) \<and>
   lineAt (editorAt 0 5 Block) 0 = Inr [97, 98, 99, 100, 101, 102, 103, 104] \<and>
   4 \<le> getCharacterFromColumn [97, 98, 99, 100, 101, 102, 103, 104] 4 8 9 (TabNumber 4) \<and>
   getCharacterFromColumn [97, 98, 99, 100, 101, 102, 103, 104] 4 8 9 (TabNumber 4) \<le> 7 \<and>
   active (selection (snd (snd (adjustCursorToColumn (wrapHost 4) 9
                                  (newMover, editorAt 0 5 Block))))) =
     Position 0 (getCharacterFromColumn [97, 98, 99, 100, 101, 102, 103, 104] 4 8 9 (TabNumber 4))"
proof -
  have h1: "(4::int) \<le> 8" by simp
  have h2: "fst (getWrappedLineBounds (wrapHost 4) (newMover, editorAt 0 5 Block)) = Inr (4, 8)"
    by (simp add: run_defs sample_defs)
  have h3: "lineAt (editorAt 0 5 Block) (posLine (active (selection (editorAt 0 5 Block)))) =
            Inr [97, 98, 99, 100, 101, 102, 103, 104]"
    by (simp add: run_defs sample_defs)
  have h4: "optionsTabSize (editorAt 0 5 Block) = TabNumber 4" by (simp add: editorAt_def)
  have sel: "posLine (active (selection (editorAt 0 5 Block))) = 0" by (simp add: editorAt_def)
  show ?thesis
    using getCharacterFromColumn_clamped
            [OF h1, of "[97, 98, 99, 100, 101, 102, 103, 104]" 9 "TabNumber 4" "wrapHost 4"
               newMover "editorAt 0 5 Block"]
          h2 h3 h4
    by (simp add: sel)
qed

text \<open>
  C6. \<open>getColumnFromCharacter\<close> returns the number of offsets from \<open>wrapStart\<close> through
  \<open>character\<close> that hold no combining mark, plus, when \<open>wrapStart \<noteq> 0\<close>, the width of the
  line's leading run of spaces and tabs (a space 1, a tab the tab size, and the tab size 0
  when it is not a number); \<open>getCharacterFromColumn\<close> starts its count at that same
  width. When \<open>wrapStart = 0\<close> neither adds anything.
\<close>

theorem indentation_fix_width:
  "getColumnFromCharacter line wrapStart character ts =
     int (length (visibleOffsets line wrapStart character)) +
     (if wrapStart \<noteq> 0
      then leadingIndentationWidth line (case ts of TabNumber n \<Rightarrow> n | _ \<Rightarrow> 0)
      else 0) \<and>
   getCharacterFromColumn line wrapStart wrapEnd column ts =
     walkColumns line wrapEnd column
       (if wrapStart \<noteq> 0
        then leadingIndentationWidth line (case ts of TabNumber n \<Rightarrow> n | _ \<Rightarrow> 0)
        else 0) wrapStart wrapStart"
  by (cases ts)
     (simp_all add: getColumnFromCharacter_def getCharacterFromColumn_def countColumns_filter
        indentationFix_def countInitialSpaces_width)

theorem indentation_fix_width_witness:
  "getColumnFromCharacter [32, 32, 32, 32, 97, 98, 99, 100] 6 7 (TabNumber 4) = 2 + 4 \<and>
   getColumnFromCharacter [9, 32, 97, 98, 99, 100] 4 5 (TabNumber 8) = 2 + 9 \<and>
   getColumnFromCharacter [9, 32, 97, 98, 99, 100] 4 5 (TabString ''auto'') = 2 + 1 \<and>
   getColumnFromCharacter [9, 32, 97, 98, 99, 100] 0 5 (TabNumber 8) = 6 + 0"
  using indentation_fix_width [of "[32, 32, 32, 32, 97, 98, 99, 100]" 6 7 "TabNumber 4"]
    indentation_fix_width [of "[9, 32, 97, 98, 99, 100]" 4 5 "TabNumber 8"]
    indentation_fix_width [of "[9, 32, 97, 98, 99, 100]" 4 5 "TabString ''auto''"]
    indentation_fix_width [of "[9, 32, 97, 98, 99, 100]" 0 5 "TabNumber 8"]
  by (simp add: visibleOffsets_def leadingIndentationWidth_def isNonBase_def charCodeAt_def
        THAI_NON_BASE_CODES_def upto.simps)

text \<open>
  C10, as the claim states it, fails: the loop counts only offsets that hold no combining
  mark, so when every offset from \<open>wrapStart\<close> through \<open>character\<close> holds one and
  \<open>wrapStart = 0\<close> the result is 0. Here the line is the single mark U+0E48 with the cursor
  on it. (The indentation term is added as it comes: on the line of a tab and \<open>a\<close>, with
  a span that starts at the \<open>a\<close>, a tab size of -3 would give 1 - 3.)
\<close>

theorem getColumnFromCharacter_zero:
  "getColumnFromCharacter [0x0E48] 0 0 TabUndefined = 0 \<and>
   (0::int) \<le> 0 \<and> (0::int) \<le> int (length [0x0E48::nat]) \<and>
   getColumnFromCharacter [9, 97] 1 1 (TabNumber (- 3)) = - 2"
  by (simp add: getColumnFromCharacter_def indentationFix_def countColumns.simps
        countInitialSpaces_def isNonBase_def charCodeAt_def THAI_NON_BASE_CODES_def)

text \<open>
  C10, amended. \<open>getColumnFromCharacter\<close> is a total function (its loop is \<open>countColumns\<close>,
  defined with its termination proof). For every line, every tab size that is not a
  negative number and every \<open>wrapStart \<le> character\<close>, it returns at least 1 whenever some
  offset from \<open>wrapStart\<close> through \<open>character\<close> holds no combining mark; that is so in
  particular whenever \<open>character\<close> is at or past the line's length, because the read
  there is out of range, is no combining mark and is counted as one column. The desired
  column that the first move of a sequence establishes from such a cursor is then at
  least 1.
\<close>

theorem getColumnFromCharacter_positive:
  assumes "wrapStart \<le> character" and "0 \<le> actualTabSize ts"
    and "int (length line) \<le> character \<or>
         (\<exists>i. wrapStart \<le> i \<and> i \<le> character \<and> \<not> isNonBase line i)"
  shows "1 \<le> getColumnFromCharacter line wrapStart character ts \<and>
         (\<not> isMoving m \<longrightarrow> isSingleSelection e \<longrightarrow>
          fst (getWrappedLineBounds host (m, e)) = Inr (wrapStart, wrapEnd) \<longrightarrow>
          lineAt e (posLine (active (selection e))) = Inr line \<longrightarrow>
          \<not> atDocumentBoundary direction wrapStart wrapEnd line
               (posLine (active (selection e))) (lineCount e) \<longrightarrow>
          posCharacter (active (selection e)) = character \<longrightarrow> optionsTabSize e = ts \<longrightarrow>
            1 \<le> desiredColumn (fst (snd (moveCursorLineWrapped host direction (m, Some e)))))"
proof -
  from assms(3) obtain j where j: "wrapStart \<le> j" "j \<le> character" "\<not> isNonBase line j"
    using assms(1) isNonBase_out_of_range [of line character] by auto
  have "1 \<le> countColumns line character wrapStart 0"
    using countColumns_pos [OF j, of 0] by simp
  then have pos: "1 \<le> getColumnFromCharacter line wrapStart character ts"
    using indentationFix_nonneg [OF assms(2), of line wrapStart]
    by (simp add: getColumnFromCharacter_def)
  show ?thesis
    using pos moveCursorLineWrapped_anchors [of m e host wrapStart wrapEnd line direction]
    by auto
qed

theorem getColumnFromCharacter_positive_witness:
  "(0::int) \<le> 1 \<and> 0 \<le> actualTabSize TabUndefined \<and> int (length [0x0E48::nat]) \<le> 1 \<and>
   1 \<le> getColumnFromCharacter [0x0E48] 0 1 TabUndefined \<and>
   1 \<le> getColumnFromCharacter [97, 98, 99, 100, 101, 102, 103, 104] 0 1 (TabNumber 4) \<and>
   1 \<le> desiredColumn (fst (snd (moveCursorLineWrapped (wrapHost 4) Down
                                   (newMover, Some (editorAt 0 1 Block)))))"
proof -
  let ?line = "[97, 98, 99, 100, 101, 102, 103, 104] :: line_text"
  have h1: "(0::int) \<le> 1" by simp
  have h2: "0 \<le> actualTabSize TabUndefined" "0 \<le> actualTabSize (TabNumber 4)" by simp_all
  have h3: "int (length [0x0E48::nat]) \<le> 1 \<or>
            (\<exists>i. 0 \<le> i \<and> i \<le> 1 \<and> \<not> isNonBase [0x0E48] i)" by simp
  have "\<not> isNonBase ?line 1"
    by (simp add: isNonBase_def charCodeAt_def THAI_NON_BASE_CODES_def)
  then have h4: "int (length ?line) \<le> 1 \<or> (\<exists>i. 0 \<le> i \<and> i \<le> 1 \<and> \<not> isNonBase ?line i)"
    by (intro disjI2 exI [of _ 1]) simp
  have g1: "\<not> isMoving newMover" by (simp add: newMover_def)
  have g2: "isSingleSelection (editorAt 0 1 Block)" by (simp add: run_defs sample_defs)
  have g3: "fst (getWrappedLineBounds (wrapHost 4) (newMover, editorAt 0 1 Block)) = Inr (0, 4)"
    by (simp add: run_defs sample_defs)
  have g4: "lineAt (editorAt 0 1 Block) (posLine (active (selection (editorAt 0 1 Block)))) =
            Inr ?line"
    by (simp add: run_defs sample_defs)
  have g5: "\<not> atDocumentBoundary Down 0 4 ?line
              (posLine (active (selection (editorAt 0 1 Block)))) (lineCount (editorAt 0 1 Block))"
    by (simp add: run_defs sample_defs)
  have g6: "posCharacter (active (selection (editorAt 0 1 Block))) = 1"
    "optionsTabSize (editorAt 0 1 Block) = TabNumber 4"
    by (simp_all add: editorAt_def)
  show ?thesis
    using getColumnFromCharacter_positive [OF h1 h2(1) h3]
          getColumnFromCharacter_positive
            [OF h1 h2(2) h4, of newMover "editorAt 0 1 Block" "wrapHost 4" 4 Down]
          g1 g2 g3 g4 g5 g6
    by simp
qed

section \<open>Claims about the mover\<close>

lemma moveCursorLineWrappedOn_probe_fails:
  assumes "fst (getWrappedLineBounds host (m, e)) = Inl x"
  shows "moveCursorLineWrappedOn host direction (m, e) =
           (Inl x, snd (getWrappedLineBounds host (m, e)))"
  using assms
  by (cases "getWrappedLineBounds host (m, e)") (simp add: moveCursorLineWrappedOn_def thenRun_def)

lemma moveCursorLineWrappedOn_line_fails:
  assumes "fst (getWrappedLineBounds host (m, e)) = Inr (ws, we)"
    and "lineAt e (posLine (active (selection e))) = Inl x"
  shows "moveCursorLineWrappedOn host direction (m, e) =
           (Inl x, snd (getWrappedLineBounds host (m, e)))"
proof -
  obtain m1 e1 where g: "getWrappedLineBounds host (m, e) = (Inr (ws, we), m1, e1)"
    using assms(1) by (cases "getWrappedLineBounds host (m, e)") auto
  have "selection e1 = selection e" "document e1 = document e"
    using getWrappedLineBounds_Inr(1) [OF assms(1)] getWrappedLineBounds_frame(4) [of host m e] g
    by simp_all
  then have "lineAt e1 (posLine (active (selection e1))) = Inl x"
    using assms(2) by (simp add: lineAt_def split: if_splits)
  then show ?thesis
    using g by (simp add: moveCursorLineWrappedOn_def thenRun_def reads_def activeLine_def
          lineTextAt_def)
qed

lemma moveCursorLineWrapped_anchors_or_keeps:
  "(isMoving (fst (snd (moveCursorLineWrapped host direction (m, eo)))) = isMoving m \<and>
    desiredColumn (fst (snd (moveCursorLineWrapped host direction (m, eo)))) = desiredColumn m) \<or>
   (\<not> isMoving m \<and> isMoving (fst (snd (moveCursorLineWrapped host direction (m, eo)))))"
proof (cases "isMoving m")
  case True
  then show ?thesis using moveCursorLineWrapped_keeps_sequence [of m host direction eo] by simp
next
  case False
  show ?thesis
  proof (cases eo)
    case None
    then show ?thesis by simp
  next
    case (Some e)
    note frame = getWrappedLineBounds_frame(1,2) [of host m e]
    show ?thesis
    proof (cases "isSingleSelection e")
      case single: True
      show ?thesis
      proof (cases "fst (getWrappedLineBounds host (m, e))")
        case (Inl x)
        show ?thesis
          using Some single frame moveCursorLineWrappedOn_probe_fails [OF Inl, of direction]
          by (simp add: onEditor_parts)
      next
        case (Inr b)
        obtain ws we where b: "fst (getWrappedLineBounds host (m, e)) = Inr (ws, we)"
          using Inr by (cases b) simp
        show ?thesis
        proof (cases "lineAt e (posLine (active (selection e)))")
          case (Inl x)
          show ?thesis
            using Some single frame moveCursorLineWrappedOn_line_fails [OF b Inl, of direction]
            by (simp add: onEditor_parts)
        next
          case line: (Inr line)
          show ?thesis
          proof (cases "atDocumentBoundary direction ws we line
                          (posLine (active (selection e))) (lineCount e)")
            case True
            then show ?thesis
              using Some single frame moveCursorLineWrappedOn_after_bounds [OF b line, of direction]
              by (simp add: onEditor_parts)
          next
            case nb: False
            show ?thesis
              using Some False moveCursorLineWrapped_anchors [OF False single b line nb] by simp
          qed
        qed
      qed
    next
      case False
      then show ?thesis using Some by simp
    qed
  qed
qed

text \<open>
  C1. A sequence starts with the call that finds no sequence active and gets past the
  guards (an editor with a single empty selection, a probe of the bounds that returns, a
  cursor not at the document boundary in the direction asked). That call sets the desired
  column to the visual column of the cursor's offset within its wrapped span at that
  moment, and however many calls \<open>ds\<close> follow with nothing in between, the column still
  has that value and the sequence is still active. While a sequence is active a call never
  changes the column. Every call either leaves the flag and the column as they were or is
  such a first call. Any of the three notifications received while the counter is not
  positive leaves the flag cleared, so the next call that gets past the guards anchors
  afresh from the cursor it finds; a notification received while the counter is positive
  changes nothing.
\<close>

theorem desired_column_anchored_once:
  "(\<not> isMoving m \<longrightarrow> isSingleSelection e \<longrightarrow>
      fst (getWrappedLineBounds host (m, e)) = Inr (wrapStart, wrapEnd) \<longrightarrow>
      lineAt e (posLine (active (selection e))) = Inr line \<longrightarrow>
      \<not> atDocumentBoundary direction wrapStart wrapEnd line
           (posLine (active (selection e))) (lineCount e) \<longrightarrow>
      isMoving (fst (moveCursorLineWrappedAll host (direction # ds) (m, Some e))) \<and>
      desiredColumn (fst (moveCursorLineWrappedAll host (direction # ds) (m, Some e))) =
        getColumnFromCharacter line wrapStart
          (posCharacter (active (selection e))) (optionsTabSize e)) \<and>
   (isMoving m \<longrightarrow>
      isMoving (fst (moveCursorLineWrappedAll host ds (m, eo))) \<and>
      desiredColumn (fst (moveCursorLineWrappedAll host ds (m, eo))) = desiredColumn m) \<and>
   ((isMoving (fst (snd (moveCursorLineWrapped host direction (m, eo)))) = isMoving m \<and>
     desiredColumn (fst (snd (moveCursorLineWrapped host direction (m, eo)))) = desiredColumn m) \<or>
    (\<not> isMoving m \<and> isMoving (fst (snd (moveCursorLineWrapped host direction (m, eo)))))) \<and>
   (\<not> isInProgrammaticMove m \<longrightarrow> \<not> isMoving (fst (snd (listener host ev (m, eo))))) \<and>
   (isInProgrammaticMove m \<longrightarrow> listener host ev (m, eo) = (Inr (), m, eo))"
proof (intro conjI impI)
  assume a: "\<not> isMoving m" "isSingleSelection e"
    "fst (getWrappedLineBounds host (m, e)) = Inr (wrapStart, wrapEnd)"
    "lineAt e (posLine (active (selection e))) = Inr line"
    "\<not> atDocumentBoundary direction wrapStart wrapEnd line
         (posLine (active (selection e))) (lineCount e)"
  let ?s = "snd (moveCursorLineWrapped host direction (m, Some e))"
  note first = moveCursorLineWrapped_anchors [OF a]
  note later = moveCursorLineWrappedAll_keeps_sequence [of ?s host ds]
  show "isMoving (fst (moveCursorLineWrappedAll host (direction # ds) (m, Some e)))"
    using first later by simp
  show "desiredColumn (fst (moveCursorLineWrappedAll host (direction # ds) (m, Some e))) =
        getColumnFromCharacter line wrapStart
          (posCharacter (active (selection e))) (optionsTabSize e)"
    using first later by simp
next
  assume "isMoving m"
  then show "isMoving (fst (moveCursorLineWrappedAll host ds (m, eo)))"
    using moveCursorLineWrappedAll_keeps_sequence [of "(m, eo)" host ds] by simp
next
  assume "isMoving m"
  then show "desiredColumn (fst (moveCursorLineWrappedAll host ds (m, eo))) = desiredColumn m"
    using moveCursorLineWrappedAll_keeps_sequence [of "(m, eo)" host ds] by simp
next
  show "(isMoving (fst (snd (moveCursorLineWrapped host direction (m, eo)))) = isMoving m \<and>
     desiredColumn (fst (snd (moveCursorLineWrapped host direction (m, eo)))) = desiredColumn m) \<or>
    (\<not> isMoving m \<and> isMoving (fst (snd (moveCursorLineWrapped host direction (m, eo)))))"
    by (rule moveCursorLineWrapped_anchors_or_keeps)
next
  assume "\<not> isInProgrammaticMove m"
  then show "\<not> isMoving (fst (snd (listener host ev (m, eo))))" by (rule listener_clears)
next
  assume "isInProgrammaticMove m"
  then show "listener host ev (m, eo) = (Inr (), m, eo)" by (rule listener_in_programmatic_move)
qed

theorem desired_column_anchored_once_witness:
  "\<not> isMoving newMover \<and> isSingleSelection (editorAt 0 1 Block) \<and>
   fst (getWrappedLineBounds (wrapHost 4) (newMover, editorAt 0 1 Block)) = Inr (0, 4) \<and>
   lineAt (editorAt 0 1 Block) 0 = Inr [97, 98, 99, 100, 101, 102, 103, 104] \<and>
   \<not> atDocumentBoundary Down 0 4 [97, 98, 99, 100, 101, 102, 103, 104] 0 2 \<and>
   isMoving (fst (moveCursorLineWrappedAll (wrapHost 4) [Down, Down, Up]
                    (newMover, Some (editorAt 0 1 Block)))) \<and>
   desiredColumn (fst (moveCursorLineWrappedAll (wrapHost 4) [Down, Down, Up]
                         (newMover, Some (editorAt 0 1 Block)))) = 2 \<and>
   \<not> isInProgrammaticMove (newMover\<lparr>isMoving := True, desiredColumn := 2\<rparr>) \<and>
   \<not> isMoving (fst (snd (listener (wrapHost 4)
                           (DidChangeTextEditorSelection (Some Keyboard) (editorAt 1 1 Block))
                           (newMover\<lparr>isMoving := True, desiredColumn := 2\<rparr>,
                            Some (editorAt 1 1 Block)))))"
proof -
  let ?line = "[97, 98, 99, 100, 101, 102, 103, 104] :: line_text"
  let ?m = "newMover\<lparr>isMoving := True, desiredColumn := 2\<rparr>"
  have h1: "\<not> isMoving newMover" by (simp add: newMover_def)
  have h2: "isSingleSelection (editorAt 0 1 Block)" by (simp add: run_defs sample_defs)
  have h3: "fst (getWrappedLineBounds (wrapHost 4) (newMover, editorAt 0 1 Block)) = Inr (0, 4)"
    by (simp add: run_defs sample_defs)
  have h4: "lineAt (editorAt 0 1 Block) 0 = Inr ?line" by (simp add: run_defs sample_defs)
  have h5: "\<not> atDocumentBoundary Down 0 4 ?line 0 2" by (simp add: atDocumentBoundary_def)
  have h6: "\<not> isInProgrammaticMove ?m" by (simp add: isInProgrammaticMove_def newMover_def)
  have sel: "posLine (active (selection (editorAt 0 1 Block))) = 0"
    "posCharacter (active (selection (editorAt 0 1 Block))) = 1"
    "lineCount (editorAt 0 1 Block) = 2" "optionsTabSize (editorAt 0 1 Block) = TabNumber 4"
    by (simp_all add: run_defs sample_defs)
  have col: "getColumnFromCharacter ?line 0 1 (TabNumber 4) = 2" by (simp add: codec_defs)
  show ?thesis
    using desired_column_anchored_once
            [of newMover "editorAt 0 1 Block" "wrapHost 4" 0 4 ?line Down "[Down, Up]" None
                "DidChangeTextEditorSelection None (editorAt 0 1 Block)"]
          desired_column_anchored_once
            [of ?m "editorAt 0 1 Block" "wrapHost 4" 0 4 ?line Down "[]" "Some (editorAt 1 1 Block)"
                "DidChangeTextEditorSelection (Some Keyboard) (editorAt 1 1 Block)"]
          h1 h2 h3 h4 h5 h6
    by (simp only: sel col simp_thms)
qed

text \<open>
  C4. When the probe of the bounds returns \<open>(wrapStart, wrapEnd)\<close>, and either the
  direction is down, \<open>wrapEnd\<close> is the length of the cursor's line and that line is the
  last of the document (or beyond it), or the direction is up, \<open>wrapStart\<close> is 0 and the
  line is line 0, then \<open>moveCursorLineWrapped\<close> returns normally having established no
  sequence (flag and column as before), having passed the host only the two probing
  moves to the wrapped-line start and end and no move by a wrapped line, and leaving the
  selection, and so the cursor, as it found it.
\<close>

theorem moveCursorLineWrapped_noop_at_boundary:
  assumes "isSingleSelection e"
    and "fst (getWrappedLineBounds host (m, e)) = Inr (wrapStart, wrapEnd)"
    and "lineAt e (posLine (active (selection e))) = Inr line"
    and "(direction = Down \<and> wrapEnd = int (length line) \<and>
            posLine (active (selection e)) \<ge> lineCount e - 1) \<or>
         (direction = Up \<and> wrapStart = 0 \<and> posLine (active (selection e)) = 0)"
  shows "fst (moveCursorLineWrapped host direction (m, Some e)) = Inr () \<and>
         isMoving (fst (snd (moveCursorLineWrapped host direction (m, Some e)))) = isMoving m \<and>
         desiredColumn (fst (snd (moveCursorLineWrapped host direction (m, Some e)))) =
           desiredColumn m \<and>
         issued (fst (snd (moveCursorLineWrapped host direction (m, Some e)))) =
           issued m @ [ToWrappedLineStart, ToWrappedLineEnd] \<and>
         map_option selection (snd (snd (moveCursorLineWrapped host direction (m, Some e)))) =
           Some (selection e)"
proof -
  have b: "atDocumentBoundary direction wrapStart wrapEnd line
             (posLine (active (selection e))) (lineCount e)"
    using assms(4) by (simp add: atDocumentBoundary_def)
  have "moveCursorLineWrapped host direction (m, Some e) =
          (Inr (), fst (snd (getWrappedLineBounds host (m, e))),
           Some (snd (snd (getWrappedLineBounds host (m, e)))))"
    using assms(1) b moveCursorLineWrappedOn_after_bounds [OF assms(2,3), of direction]
    by (simp add: onEditor_def split: prod.splits)
  then show ?thesis
    using getWrappedLineBounds_Inr [OF assms(2)] getWrappedLineBounds_frame(1,2) [of host m e]
    by simp
qed

theorem moveCursorLineWrapped_noop_at_boundary_witness:
  "isSingleSelection (editorAt 1 1 Block) \<and>
   fst (getWrappedLineBounds (wrapHost 4) (newMover, editorAt 1 1 Block)) = Inr (0, 2) \<and>
   lineAt (editorAt 1 1 Block) 1 = Inr [120, 121] \<and>
   fst (moveCursorLineWrapped (wrapHost 4) Down (newMover, Some (editorAt 1 1 Block))) = Inr () \<and>
   isMoving (fst (snd (moveCursorLineWrapped (wrapHost 4) Down
                         (newMover, Some (editorAt 1 1 Block))))) = False \<and>
   issued (fst (snd (moveCursorLineWrapped (wrapHost 4) Down
                       (newMover, Some (editorAt 1 1 Block))))) =
     [ToWrappedLineStart, ToWrappedLineEnd] \<and>
   map_option selection (snd (snd (moveCursorLineWrapped (wrapHost 4) Down
                                     (newMover, Some (editorAt 1 1 Block))))) =
     Some (Selection (Position 1 1) (Position 1 1)) \<and>
   fst (getWrappedLineBounds (wrapHost 4) (newMover, editorAt 0 1 Block)) = Inr (0, 4) \<and>
   fst (moveCursorLineWrapped (wrapHost 4) Up (newMover, Some (editorAt 0 1 Block))) = Inr () \<and>
   issued (fst (snd (moveCursorLineWrapped (wrapHost 4) Up
                       (newMover, Some (editorAt 0 1 Block))))) =
     [ToWrappedLineStart, ToWrappedLineEnd]"
proof -
  have h1: "isSingleSelection (editorAt 1 1 Block)" "isSingleSelection (editorAt 0 1 Block)"
    by (simp_all add: run_defs sample_defs)
  have h2: "fst (getWrappedLineBounds (wrapHost 4) (newMover, editorAt 1 1 Block)) = Inr (0, 2)"
    by (simp add: run_defs sample_defs)
  have h3: "lineAt (editorAt 1 1 Block) 1 = Inr [120, 121]" by (simp add: run_defs sample_defs)
  have h4: "fst (getWrappedLineBounds (wrapHost 4) (newMover, editorAt 0 1 Block)) = Inr (0, 4)"
    by (simp add: run_defs sample_defs)
  have h5: "lineAt (editorAt 0 1 Block) 0 = Inr [97, 98, 99, 100, 101, 102, 103, 104]"
    by (simp add: run_defs sample_defs)
  have sel: "posLine (active (selection (editorAt 1 1 Block))) = 1"
    "posLine (active (selection (editorAt 0 1 Block))) = 0"
    "lineCount (editorAt 1 1 Block) = 2"
    by (simp_all add: run_defs sample_defs)
  have m: "isMoving newMover = False" "issued newMover = []"
    "selection (editorAt 1 1 Block) = Selection (Position 1 1) (Position 1 1)"
    by (simp_all add: newMover_def editorAt_def)
  show ?thesis
    using moveCursorLineWrapped_noop_at_boundary
            [of "editorAt 1 1 Block" "wrapHost 4" newMover 0 2 "[120, 121]" Down]
          moveCursorLineWrapped_noop_at_boundary
            [of "editorAt 0 1 Block" "wrapHost 4" newMover 0 4
                "[97, 98, 99, 100, 101, 102, 103, 104]" Up]
          h1 h2 h3 h4 h5
    by (simp add: sel m)
qed

text \<open>
  C7, as the claim states it, fails: \<open>getWrappedLineBounds\<close> assigns the cursor style
  twice, \<open>LineThin\<close> on entry and \<open>Block\<close> before it returns, and never reads the style
  it found. An editor whose cursor style is \<open>Line\<close> (the style \<open>isInInsertMode\<close> tests
  for) comes back with \<open>Block\<close>.
\<close>

theorem getWrappedLineBounds_changes_cursor_style:
  "optionsCursorStyle (editorAt 0 1 Line) = Line \<and>
   fst (getWrappedLineBounds (wrapHost 4) (newMover, editorAt 0 1 Line)) = Inr (0, 4) \<and>
   optionsCursorStyle (snd (snd (getWrappedLineBounds (wrapHost 4) (newMover, editorAt 0 1 Line))))
     = Block"
  by (simp add: run_defs sample_defs)

text \<open>
  C7, amended. After \<open>getWrappedLineBounds\<close> returns \<open>(start, end)\<close>, the editor's
  selection equals the selection recorded at entry, the document and the tab size are
  what they were, and the cursor style is \<open>Block\<close> whatever it was at entry.
\<close>

theorem getWrappedLineBounds_restores_selection:
  assumes "fst (getWrappedLineBounds host (m, e)) = Inr (wrapStart, wrapEnd)"
  shows "selection (snd (snd (getWrappedLineBounds host (m, e)))) = selection e \<and>
         optionsCursorStyle (snd (snd (getWrappedLineBounds host (m, e)))) = Block \<and>
         optionsTabSize (snd (snd (getWrappedLineBounds host (m, e)))) = optionsTabSize e \<and>
         document (snd (snd (getWrappedLineBounds host (m, e)))) = document e"
  using getWrappedLineBounds_Inr(1,2) [OF assms] getWrappedLineBounds_frame(3,4) [of host m e]
  by simp

theorem getWrappedLineBounds_restores_selection_witness:
  "fst (getWrappedLineBounds (wrapHost 4) (newMover, editorAt 0 6 Line)) = Inr (4, 8) \<and>
   selection (snd (snd (getWrappedLineBounds (wrapHost 4) (newMover, editorAt 0 6 Line)))) =
     Selection (Position 0 6) (Position 0 6) \<and>
   optionsCursorStyle (snd (snd (getWrappedLineBounds (wrapHost 4) (newMover, editorAt 0 6 Line))))
     = Block \<and>
   document (snd (snd (getWrappedLineBounds (wrapHost 4) (newMover, editorAt 0 6 Line)))) =
     sampleDocument"
proof -
  have h: "fst (getWrappedLineBounds (wrapHost 4) (newMover, editorAt 0 6 Line)) = Inr (4, 8)"
    by (simp add: run_defs sample_defs)
  have e: "selection (editorAt 0 6 Line) = Selection (Position 0 6) (Position 0 6)"
    "document (editorAt 0 6 Line) = sampleDocument"
    by (simp_all add: editorAt_def)
  show ?thesis
    using getWrappedLineBounds_restores_selection [OF h] h by (simp add: e)
qed

text \<open>
  C8. The counter is never negative after \<open>runProgrammaticMove\<close>. Entered with a counter
  that is not negative, around an action that itself leaves the counter as it found it,
  \<open>runProgrammaticMove\<close> restores the counter to its value at entry whatever the outcome of
  the action, a return or a throw, which it passes on; so does a \<open>runProgrammaticMove\<close>
  nested in another. The action only ever runs with \<open>isInProgrammaticMove\<close> true. Every
  command and every notification leaves the counter as it found it, so starting from a
  new mover the counter is 0, and \<open>isInProgrammaticMove\<close> false, between any invocations.
\<close>

theorem runProgrammaticMove_restores_counter:
  assumes "0 \<le> programmaticMoveCount m"
    and "\<forall>s. programmaticMoveCount (fst (snd (action s))) = programmaticMoveCount (fst s)"
  shows "programmaticMoveCount (fst (snd (runProgrammaticMove action (m, e)))) =
           programmaticMoveCount m \<and>
         fst (runProgrammaticMove action (m, e)) =
           fst (action (m\<lparr>programmaticMoveCount := programmaticMoveCount m + 1\<rparr>, e)) \<and>
         programmaticMoveCount (fst (snd (runProgrammaticMove (runProgrammaticMove action) (m, e)))) =
           programmaticMoveCount m \<and>
         0 \<le> programmaticMoveCount (fst (snd (runProgrammaticMove other s))) \<and>
         runProgrammaticMove (\<lambda>s. if isInProgrammaticMove (fst s) then action s else other s) (m, e) =
           runProgrammaticMove action (m, e) \<and>
         programmaticMoveCount (fst (invokeAll host cs (m, eo))) = programmaticMoveCount m \<and>
         programmaticMoveCount (fst (invokeAll host cs (newMover, eo))) = 0 \<and>
         \<not> isInProgrammaticMove (fst (invokeAll host cs (newMover, eo)))"
proof (intro conjI)
  show "programmaticMoveCount (fst (snd (runProgrammaticMove action (m, e)))) =
          programmaticMoveCount m"
    using assms by (rule runProgrammaticMove_counter)
  show "fst (runProgrammaticMove action (m, e)) =
          fst (action (m\<lparr>programmaticMoveCount := programmaticMoveCount m + 1\<rparr>, e))"
    by (rule runProgrammaticMove_outcome)
  have inner: "\<forall>s. 0 \<le> programmaticMoveCount (fst s) \<longrightarrow>
      programmaticMoveCount (fst (snd (runProgrammaticMove action s))) = programmaticMoveCount (fst s)"
    using runProgrammaticMove_counter [OF _ assms(2)] by simp
  let ?m1 = "m\<lparr>programmaticMoveCount := programmaticMoveCount m + 1\<rparr>"
  have "programmaticMoveCount (fst (snd (runProgrammaticMove action (?m1, e)))) =
          programmaticMoveCount m + 1"
    using inner assms(1) by simp
  then show "programmaticMoveCount
               (fst (snd (runProgrammaticMove (runProgrammaticMove action) (m, e)))) =
             programmaticMoveCount m"
    using assms(1)
    by (cases "runProgrammaticMove action (?m1, e)")
       (simp add: runProgrammaticMove_def [of "runProgrammaticMove action"])
  show "0 \<le> programmaticMoveCount (fst (snd (runProgrammaticMove other s)))"
    by (rule runProgrammaticMove_nonneg)
  show "runProgrammaticMove (\<lambda>s. if isInProgrammaticMove (fst s) then action s else other s) (m, e) =
          runProgrammaticMove action (m, e)"
    using assms(1) by (rule runProgrammaticMove_guarded)
  show "programmaticMoveCount (fst (invokeAll host cs (m, eo))) = programmaticMoveCount m"
    using invokeAll_counter [of "(m, eo)" host cs] assms(1) by simp
  show new: "programmaticMoveCount (fst (invokeAll host cs (newMover, eo))) = 0"
    using invokeAll_counter [of "(newMover, eo)" host cs] by (simp add: newMover_def)
  show "\<not> isInProgrammaticMove (fst (invokeAll host cs (newMover, eo)))"
    using new by (simp add: isInProgrammaticMove_def)
qed

theorem runProgrammaticMove_restores_counter_witness:
  "0 \<le> programmaticMoveCount newMover \<and>
   fst (runProgrammaticMove (executeCursorMove rejectingHost ToDown)
          (newMover, editorAt 0 1 Block)) = Inl CommandRejected \<and>
   programmaticMoveCount
     (fst (snd (runProgrammaticMove (executeCursorMove rejectingHost ToDown)
                  (newMover, editorAt 0 1 Block)))) = 0 \<and>
   programmaticMoveCount
     (fst (snd (runProgrammaticMove (runProgrammaticMove (executeCursorMove rejectingHost ToDown))
                  (newMover, editorAt 0 1 Block)))) = 0 \<and>
   programmaticMoveCount
     (fst (invokeAll (wrapHost 4)
             [CursorDown, Notified (DidChangeTextEditorSelection (Some Mouse) (editorAt 0 5 Block)), CursorUp]
             (newMover, Some (editorAt 0 1 Block)))) = 0"
proof -
  have h1: "0 \<le> programmaticMoveCount newMover" by (simp add: newMover_def)
  have h2: "\<forall>s. programmaticMoveCount (fst (snd (executeCursorMove rejectingHost ToDown s))) =
                programmaticMoveCount (fst s)"
    by (simp add: executeCursorMove_def rejectingHost_def)
  have out: "fst (executeCursorMove rejectingHost ToDown
                    (newMover\<lparr>programmaticMoveCount := programmaticMoveCount newMover + 1\<rparr>,
                     editorAt 0 1 Block)) = Inl CommandRejected"
    by (simp add: executeCursorMove_def rejectingHost_def)
  show ?thesis
    using runProgrammaticMove_restores_counter
            [OF h1 h2, of "editorAt 0 1 Block" "executeCursorMove rejectingHost ToDown"
               "(newMover, editorAt 0 1 Block)" "wrapHost 4"
               "[CursorDown, Notified (DidChangeTextEditorSelection (Some Mouse) (editorAt 0 5 Block)), CursorUp]"
               "Some (editorAt 0 1 Block)"]
          h1 out
    by (simp add: newMover_def)
qed

text \<open>
  C9, as the claim states it, fails: the listener passes \<open>update\<close> a true \<open>snapCursor\<close>
  only for a selection change whose kind is \<open>Mouse\<close>. Here the cursor is at offset 4 of
  \<open>abcdefgh\<close>, the end of its wrapped span (the host's move to the wrapped-line end
  leaves it there), the editor is not in insert mode and the counter is 0; the change is
  of kind \<open>Keyboard\<close>, in that same editor, and the editor is left exactly as it was.
\<close>

theorem listener_ignores_keyboard_change:
  "wrapHost 4 ToWrappedLineEnd (hangingEditorAt 0 4 Block) =
     Some (active (selection (hangingEditorAt 0 4 Block)), [], 5) \<and>
   posCharacter (active (selection (hangingEditorAt 0 4 Block))) = 4 \<and>
   \<not> isInInsertMode (hangingEditorAt 0 4 Block) \<and>
   \<not> isInProgrammaticMove newMover \<and>
   snd (snd (listener (wrapHost 4)
               (DidChangeTextEditorSelection (Some Keyboard) (hangingEditorAt 0 4 Block))
               (newMover, Some (hangingEditorAt 0 4 Block)))) = Some (hangingEditorAt 0 4 Block)"
  by (simp add: run_defs sample_defs hangingEditorAt_def)

text \<open>
  C9, amended. Whenever a selection-change event of kind \<open>Mouse\<close> whose editor has a
  single empty selection is observed while the counter is not positive, and the active
  editor is not in insert mode, has its cursor not at offset 0 and before the end of its
  logical line, and keeps its selection under the host's move to the wrapped-line end
  (the cursor sits at the end of its wrapped span), the listener puts the active editor's
  cursor on the same line at the offset \<open>r\<close> that \<open>getLeftColumnCharacter\<close> gives for
  its offset \<open>c\<close>. That is the nearest offset to the left that holds no combining mark,
  or 0: \<open>r < c\<close>, every offset strictly between \<open>r\<close> and \<open>c\<close> holds a combining mark,
  and \<open>r\<close> holds none unless it is 0. In every other case, in particular for a change
  of any other kind, for a change in an editor with several selections or a selection
  that is not empty, and for the other two notifications, the listener leaves the active
  editor's selection as it was.
\<close>

theorem listener_snaps_on_mouse_only:
  "(snapApplies host ev m e \<longrightarrow>
      lineAt e (posLine (active (selection e))) = Inr line \<longrightarrow>
      fst (listener host ev (m, Some e)) = Inr () \<and>
      map_option selection (snd (snd (listener host ev (m, Some e)))) =
        Some (Selection
                (Position (posLine (active (selection e)))
                   (getLeftColumnCharacter line (posCharacter (active (selection e)))))
                (Position (posLine (active (selection e)))
                   (getLeftColumnCharacter line (posCharacter (active (selection e)))))) \<and>
      getLeftColumnCharacter line (posCharacter (active (selection e))) <
        posCharacter (active (selection e)) \<and>
      (\<forall>j. getLeftColumnCharacter line (posCharacter (active (selection e))) < j \<and>
           j < posCharacter (active (selection e)) \<longrightarrow> isNonBase line j) \<and>
      (0 < getLeftColumnCharacter line (posCharacter (active (selection e))) \<longrightarrow>
         \<not> isNonBase line (getLeftColumnCharacter line (posCharacter (active (selection e))))) \<and>
      (0 < posCharacter (active (selection e)) \<longrightarrow>
         0 \<le> getLeftColumnCharacter line (posCharacter (active (selection e))))) \<and>
   (\<not> snapApplies host ev m e \<longrightarrow>
      map_option selection (snd (snd (listener host ev (m, Some e)))) = Some (selection e))"
proof (intro conjI impI allI)
  assume a: "snapApplies host ev m e" and l: "lineAt e (posLine (active (selection e))) = Inr line"
  from a obtain p ps v where h: "host ToWrappedLineEnd e = Some (p, ps, v)"
    and eq: "isEqual (selection e) (Selection p p)"
    by (auto simp: snapApplies_def hangsAtWrappedLineEnd_def split: option.splits)
  obtain ln c where p: "p = Position ln c" by (cases p)
  have sel: "selection e = Selection (Position ln c) (Position ln c)"
    using isEqual_empty_right [OF eq] p by simp
  have l': "lineAt e ln = Inr line" using l sel by simp
  note s = snap_moves_left [where host = host and e = e and m = "m\<lparr>isMoving := False\<rparr>",
                            OF h [unfolded p] eq [unfolded p] l']
  have ev: "listener host ev (m, Some e) =
            onEditor (snapCursorInsideWrappedLine host) (m\<lparr>isMoving := False\<rparr>) e"
    using a l sel by (simp add: listener_update snapApplies_def insideLine_def)
  show "fst (listener host ev (m, Some e)) = Inr ()"
    using s by (simp add: ev onEditor_parts)
  show "map_option selection (snd (snd (listener host ev (m, Some e)))) =
        Some (Selection
                (Position (posLine (active (selection e)))
                   (getLeftColumnCharacter line (posCharacter (active (selection e)))))
                (Position (posLine (active (selection e)))
                   (getLeftColumnCharacter line (posCharacter (active (selection e))))))"
    using s sel by (simp add: ev onEditor_parts)
next
  show "getLeftColumnCharacter line (posCharacter (active (selection e))) <
        posCharacter (active (selection e))"
    using getLeftColumnCharacter_nearest [of line "posCharacter (active (selection e))"] by simp
next
  fix j
  assume "getLeftColumnCharacter line (posCharacter (active (selection e))) < j \<and>
          j < posCharacter (active (selection e))"
  then show "isNonBase line j"
    using getLeftColumnCharacter_nearest [of line "posCharacter (active (selection e))"] by blast
next
  assume "0 < getLeftColumnCharacter line (posCharacter (active (selection e)))"
  then show "\<not> isNonBase line (getLeftColumnCharacter line (posCharacter (active (selection e))))"
    using getLeftColumnCharacter_nearest [of line "posCharacter (active (selection e))"] by blast
next
  assume "0 < posCharacter (active (selection e))"
  then show "0 \<le> getLeftColumnCharacter line (posCharacter (active (selection e)))"
    using getLeftColumnCharacter_nearest [of line "posCharacter (active (selection e))"] by blast
next
  assume n: "\<not> snapApplies host ev m e"
  show "map_option selection (snd (snd (listener host ev (m, Some e)))) = Some (selection e)"
  proof (cases "\<not> isInProgrammaticMove m \<and> snapRequested ev \<and> \<not> isInInsertMode e \<and>
                posCharacter (active (selection e)) \<noteq> 0 \<and> insideLine e")
    case True
    then have nh: "\<not> hangsAtWrappedLineEnd host e" using n by (simp add: snapApplies_def)
    have r: "selection (snd (snd (snapCursorInsideWrappedLine host (m\<lparr>isMoving := False\<rparr>, e)))) =
             selection e"
      using nh
      by (intro snap_restores [where host = host]) (auto simp: hangsAtWrappedLineEnd_def)
    have ev: "listener host ev (m, Some e) =
            onEditor (snapCursorInsideWrappedLine host) (m\<lparr>isMoving := False\<rparr>) e"
      using True by (auto simp: listener_update insideLine_def split: sum.splits)
    show ?thesis using r by (simp add: ev onEditor_parts)
  next
    case False
    then have "snd (snd (listener host ev (m, Some e))) = Some e"
      by (auto simp: listener_update insideLine_def Let_def split: sum.splits)
    then show ?thesis by simp
  qed
qed

theorem listener_snaps_on_mouse_only_witness:
  "snapApplies (wrapHost 4)
     (DidChangeTextEditorSelection (Some Mouse) (hangingEditorAt 0 4 Block)) newMover
     (hangingEditorAt 0 4 Block) \<and>
   lineAt (hangingEditorAt 0 4 Block) 0 = Inr [97, 98, 99, 100, 101, 102, 103, 104] \<and>
   getLeftColumnCharacter [97, 98, 99, 100, 101, 102, 103, 104] 4 = 3 \<and>
   map_option selection
     (snd (snd (listener (wrapHost 4)
                  (DidChangeTextEditorSelection (Some Mouse) (hangingEditorAt 0 4 Block))
                  (newMover, Some (hangingEditorAt 0 4 Block))))) =
     Some (Selection (Position 0 3) (Position 0 3)) \<and>
   \<not> snapApplies (wrapHost 4)
       (DidChangeTextEditorSelection (Some Mouse)
          ((editorAt 1 1 Block)\<lparr>otherSelections := [Selection (Position 1 0) (Position 1 0)]\<rparr>))
       newMover (hangingEditorAt 0 4 Block) \<and>
   map_option selection
     (snd (snd (listener (wrapHost 4)
                  (DidChangeTextEditorSelection (Some Mouse)
                     ((editorAt 1 1 Block)\<lparr>otherSelections :=
                                               [Selection (Position 1 0) (Position 1 0)]\<rparr>))
                  (newMover, Some (hangingEditorAt 0 4 Block))))) =
     Some (Selection (Position 0 4) (Position 0 4)) \<and>
   \<not> snapApplies (wrapHost 4)
       (DidChangeTextEditorSelection (Some Mouse) (editorAt 0 4 Block)) newMover
       (editorAt 0 4 Block) \<and>
   map_option selection
     (snd (snd (listener (wrapHost 4)
                  (DidChangeTextEditorSelection (Some Mouse) (editorAt 0 4 Block))
                  (newMover, Some (editorAt 0 4 Block))))) =
     Some (Selection (Position 0 4) (Position 0 4)) \<and>
   snapApplies (wrapHost 4)
     (DidChangeTextEditorSelection (Some Mouse) (editorAt 1 1 Block)) newMover
     ((hangingEditorAt 0 4 Block)\<lparr>otherSelections :=
                                      [Selection (Position 1 0) (Position 1 0)]\<rparr>) \<and>
   map_option selection
     (snd (snd (listener (wrapHost 4)
                  (DidChangeTextEditorSelection (Some Mouse) (editorAt 1 1 Block))
                  (newMover,
                   Some ((hangingEditorAt 0 4 Block)\<lparr>otherSelections :=
                           [Selection (Position 1 0) (Position 1 0)]\<rparr>))))) =
     Some (Selection (Position 0 3) (Position 0 3))"
proof -
  let ?line = "[97, 98, 99, 100, 101, 102, 103, 104] :: line_text"
  let ?two = "(editorAt 1 1 Block)\<lparr>otherSelections := [Selection (Position 1 0) (Position 1 0)]\<rparr>"
  let ?ev1 = "DidChangeTextEditorSelection (Some Mouse) (hangingEditorAt 0 4 Block)"
  let ?ev2 = "DidChangeTextEditorSelection (Some Mouse) ?two"
  let ?ev3 = "DidChangeTextEditorSelection (Some Mouse) (editorAt 0 4 Block)"
  let ?ev4 = "DidChangeTextEditorSelection (Some Mouse) (editorAt 1 1 Block)"
  let ?multi = "(hangingEditorAt 0 4 Block)\<lparr>otherSelections :=
                  [Selection (Position 1 0) (Position 1 0)]\<rparr>"
  have h1: "snapApplies (wrapHost 4) ?ev1 newMover (hangingEditorAt 0 4 Block)"
    by (simp add: snapApplies_def insideLine_def hangsAtWrappedLineEnd_def run_defs sample_defs
          hangingEditorAt_def)
  have h2: "lineAt (hangingEditorAt 0 4 Block)
              (posLine (active (selection (hangingEditorAt 0 4 Block)))) = Inr ?line"
    by (simp add: run_defs sample_defs hangingEditorAt_def)
  have h3: "\<not> snapApplies (wrapHost 4) ?ev2 newMover (hangingEditorAt 0 4 Block)"
    by (simp add: snapApplies_def isSingleSelection_def editorAt_def)
  have h4: "\<not> snapApplies (wrapHost 4) ?ev3 newMover (editorAt 0 4 Block)"
    by (simp add: snapApplies_def insideLine_def hangsAtWrappedLineEnd_def run_defs sample_defs)
  have h5: "snapApplies (wrapHost 4) ?ev4 newMover ?multi"
    by (simp add: snapApplies_def insideLine_def hangsAtWrappedLineEnd_def run_defs sample_defs
          hangingEditorAt_def)
  have h6: "lineAt ?multi (posLine (active (selection ?multi))) = Inr ?line"
    by (simp add: run_defs sample_defs hangingEditorAt_def)
  have left: "getLeftColumnCharacter ?line 4 = 3" by (simp add: codec_defs)
  have sel: "posLine (active (selection (hangingEditorAt 0 4 Block))) = 0"
    "posCharacter (active (selection (hangingEditorAt 0 4 Block))) = 4"
    "selection (hangingEditorAt 0 4 Block) = Selection (Position 0 4) (Position 0 4)"
    "selection (editorAt 0 4 Block) = Selection (Position 0 4) (Position 0 4)"
    "posLine (active (selection ?multi)) = 0" "posCharacter (active (selection ?multi)) = 4"
    by (simp_all add: editorAt_def hangingEditorAt_def)
  show ?thesis
    using listener_snaps_on_mouse_only
            [of "wrapHost 4" ?ev1 newMover "hangingEditorAt 0 4 Block" ?line]
          listener_snaps_on_mouse_only
            [of "wrapHost 4" ?ev2 newMover "hangingEditorAt 0 4 Block" ?line]
          listener_snaps_on_mouse_only [of "wrapHost 4" ?ev3 newMover "editorAt 0 4 Block" ?line]
          listener_snaps_on_mouse_only [of "wrapHost 4" ?ev4 newMover ?multi ?line]
          h1 h2 h3 h4 h5 h6 left
    by (simp add: sel)
qed

end
